theory Spec2Isabelle
  imports Complex_Main "HOL-Library.AList"
begin

section \<open>JavaScript values\<close>

text \<open>
  The server (\<^verbatim>\<open>src/server.js\<close>) keeps four JSON files, asks two remote endpoints and
  copies opaque JSON values from the answers into its own records. Opaque values are
  modelled by \<open>jsval\<close>; \<open>JUndefined\<close> is the value of a property that is not there.
\<close>

datatype jsval =
    JUndefined
  | JNull
  | JBool bool
  | JNum rat
  | JStr string
  | JArr "jsval list"
  | JObj "(string \<times> jsval) list"

text \<open>ToBoolean, as used by \<^verbatim>\<open>if (v)\<close>, \<^verbatim>\<open>!v\<close> and \<^verbatim>\<open>a || b\<close>.\<close>

fun truthy :: "jsval \<Rightarrow> bool" where
  "truthy JUndefined = False"
| "truthy JNull = False"
| "truthy (JBool b) = b"
| "truthy (JNum n) = (n \<noteq> 0)"
| "truthy (JStr s) = (s \<noteq> [])"
| "truthy (JArr xs) = True"
| "truthy (JObj kvs) = True"

text \<open>\<^verbatim>\<open>a || b\<close>\<close>

definition js_or :: "jsval \<Rightarrow> jsval \<Rightarrow> jsval" where
  "js_or a b = (if truthy a then a else b)"

text \<open>
  \<^verbatim>\<open>v?.k\<close> for a property name \<open>k\<close> that no prototype defines: the own property of an
  object, \<^verbatim>\<open>undefined\<close> for everything else (also for \<^verbatim>\<open>null\<close> and \<^verbatim>\<open>undefined\<close>, because
  of the optional chaining).
\<close>

fun opt_member :: "jsval \<Rightarrow> string \<Rightarrow> jsval" where
  "opt_member (JObj kvs) k = (case map_of kvs k of Some v \<Rightarrow> v | None \<Rightarrow> JUndefined)"
| "opt_member v k = JUndefined"

text \<open>
  A plain object used as a dictionary is the list of its entries, in the order of
  \<^verbatim>\<open>Object.entries\<close>. A property is read with \<open>map_of\<close>; assigning \<^verbatim>\<open>o[k] = v\<close> replaces
  the value of an existing key in place and appends a new key (\<open>AList.update\<close>).
  JavaScript enumerates keys that are array indices before the others; the place of such
  keys is not modelled, and the statements below read objects through \<open>map_of\<close> or
  through keys that are no array indices.
\<close>

type_synonym 'v obj = "(string \<times> 'v) list"

definition member :: "jsval obj \<Rightarrow> string \<Rightarrow> jsval" where
  "member ob k = (case map_of ob k of Some v \<Rightarrow> v | None \<Rightarrow> JUndefined)"

text \<open>\<^verbatim>\<open>Object.assign(target, source)\<close>: every entry of the source is assigned to the target.\<close>

definition object_assign :: "'v obj \<Rightarrow> 'v obj \<Rightarrow> 'v obj" where
  "object_assign target source = fold (\<lambda>(k, v) t. AList.update k v t) source target"

text \<open>\<^verbatim>\<open>Object.fromEntries(entries)\<close>\<close>

definition fromEntries :: "(string \<times> 'v) list \<Rightarrow> 'v obj" where
  "fromEntries es = fold (\<lambda>(k, v) t. AList.update k v t) es []"

section \<open>Data model\<close>

text \<open>
  \<^verbatim>\<open>lastUpdate\<close> of a campsite is read in two ways only: by its truth value, and through
  \<^verbatim>\<open>new Date(c.lastUpdate)\<close> compared with another date. It is written as
  \<^verbatim>\<open>new Date().toISOString()\<close>. So it is modelled by what these uses see:
  \<^item> \<open>NoUpdate\<close>: the property is missing, \<^verbatim>\<open>null\<close> or another falsy value;
  \<^item> \<open>BadDate\<close>: a truthy value that \<^verbatim>\<open>new Date\<close> turns into an invalid date (NaN);
  \<^item> \<open>UpdatedAt t\<close>: a truthy value whose date has the time value \<open>t\<close> (milliseconds since
    the epoch).
\<close>

datatype last_update = NoUpdate | BadDate | UpdatedAt int

record campsite =
  code :: string
  campsite_name :: jsval
  campsite_country :: jsval
  campsite_region :: jsval
  lastUpdate :: last_update

text \<open>
  A raw listing of the search answer. Its id is modelled by the string it converts to,
  which is what the code uses both as the property key of the supplier cache and inside
  the composite key. The ids are those of listings (numbers in the answers of the
  endpoint), not names that every object inherits, such as \<^verbatim>\<open>constructor\<close>.
\<close>

record item =
  item_id :: string
  item_name :: jsval
  item_category :: jsval
  item_categorySlug :: jsval
  item_maxPersons :: jsval
  item_bedrooms :: jsval
  item_aircondition :: jsval
  item_dogAllowed :: jsval
  item_priceBeforeFeesBeforeDiscount :: jsval
  item_priceBeforeFeesAfterDiscount :: jsval
  item_size :: jsval
  item_arrivalDate :: jsval
  item_duration :: jsval

text \<open>The record that \<^verbatim>\<open>fetchData\<close> stores under a composite key.\<close>

record result_record =
  rec_id :: string
  rec_name :: jsval
  rec_category :: jsval
  rec_categorySlug :: jsval
  rec_maxPersons :: jsval
  rec_bedrooms :: jsval
  rec_aircondition :: jsval
  rec_dogAllowed :: jsval
  rec_priceBeforeFeesBeforeDiscount :: jsval
  rec_priceBeforeFeesAfterDiscount :: jsval
  rec_size :: jsval
  rec_arrivalDate :: jsval
  rec_duration :: jsval
  supplier :: jsval
  campsite :: string
  requestedDate :: string
  website :: string
  timestamp :: string

text \<open>The body built by \<^verbatim>\<open>createRequestBody\<close>.\<close>

record request_body =
  req_facilities :: "jsval list"
  req_categories :: "string list"
  req_bedrooms :: "jsval list"
  req_map :: bool
  req_includeTopFacilities :: bool
  req_funnel :: string
  req_date :: string
  req_duration :: nat
  req_country :: jsval
  req_area :: jsval
  req_adults :: nat
  req_children :: "jsval list"
  req_site :: jsval
  req_limit :: nat
  req_order :: string
  req_orderBy :: string
  req_orderSettingsLabel :: string
  req_page :: nat

definition createRequestBody :: "string \<Rightarrow> campsite \<Rightarrow> request_body" where
  "createRequestBody date c =
     \<lparr> req_facilities = [], req_categories = [''mobile-home''], req_bedrooms = [],
       req_map = False, req_includeTopFacilities = True, req_funnel = ''camping'',
       req_date = date, req_duration = 7,
       req_country = campsite_country c, req_area = campsite_region c,
       req_adults = 2, req_children = [],
       req_site = campsite_name c,
       req_limit = 10, req_order = ''desc'', req_orderBy = ''popular'',
       req_orderSettingsLabel = ''popular-desc'', req_page = 1 \<rparr>"

section \<open>The persisted JSON files\<close>

datatype path = DATA_FILE | CAMPSITES_FILE | DATES_FILE | SUPPLIER_CACHE_FILE

text \<open>
  What \<^verbatim>\<open>loadFile\<close> can find at a path:
  \<^item> \<open>Absent\<close>: \<^verbatim>\<open>fs.existsSync\<close> is false;
  \<^item> \<open>Unreadable\<close>: the file exists, and \<^verbatim>\<open>fs.readFileSync\<close> or \<^verbatim>\<open>JSON.parse\<close> throws;
  \<^item> \<open>Blank\<close>: the file exists and its text is the empty string;
  \<^item> \<open>Holds v\<close>: the file exists and its text parses to \<open>v\<close>.
\<close>

datatype 'a json_file = Absent | Unreadable | Blank | Holds 'a

text \<open>
  What \<^verbatim>\<open>loadFile\<close> returns: a parsed document, the object \<^verbatim>\<open>{}\<close> (the default of the
  parameter \<^verbatim>\<open>defaultValue\<close>, and what \<^verbatim>\<open>JSON.parse("{}")\<close> gives), or an object
  \<^verbatim>\<open>{ error: msg }\<close> that a caller passed as default.
\<close>

datatype 'a loaded = Parsed 'a | EmptyObject | ErrorObject string

definition loadFile :: "'a json_file \<Rightarrow> 'a loaded \<Rightarrow> 'a loaded" where
  "loadFile f defaultValue =
     (case f of
        Absent \<Rightarrow> defaultValue
      | Unreadable \<Rightarrow> defaultValue
      | Blank \<Rightarrow> EmptyObject
      | Holds v \<Rightarrow> Parsed v)"

text \<open>
  The entries of a loaded dictionary, in the order of \<^verbatim>\<open>Object.entries\<close>. \<open>Holds members\<close>
  lists the members of the JSON text; \<^verbatim>\<open>JSON.parse\<close> gives a repeated key its last value, at
  the place of its first occurrence. Inside the server every dictionary is loaded with the
  default \<^verbatim>\<open>{}\<close>, so the last case does not arise there.
\<close>

fun entries :: "'v obj loaded \<Rightarrow> 'v obj" where
  "entries (Parsed members) = fromEntries members"
| "entries EmptyObject = []"
| "entries (ErrorObject msg) = []"

section \<open>The world: files, remote endpoints, clock\<close>

text \<open>
  Every effect of the server is an event of a trace: a search request, a supplier lookup,
  a file written. The answers of the outside world are given by an environment, indexed by
  the number of events that happened before, so that the same request can be answered
  differently at different times. The randomised delays change nothing but the time that
  passes and are left out.
\<close>

datatype event = Post request_body | Get string | Write path

text \<open>
  \<open>Array xs\<close> is an array of listings, \<open>None\<close> standing for an element \<^verbatim>\<open>null\<close>;
  \<open>Falsy\<close> is a missing, \<^verbatim>\<open>null\<close> or otherwise falsy property; \<open>NotIterable\<close> is a truthy
  value that cannot be spread.
\<close>

datatype listings = Falsy | Array "item option list" | NotIterable

text \<open>
  \<open>Rejected\<close>: \<^verbatim>\<open>axios.post\<close> throws. \<open>NoData\<close>: the answer has no object under
  \<^verbatim>\<open>data\<close>, so that \<^verbatim>\<open>rawData.data.accommodations\<close> throws. \<open>Payload a b\<close>: the values of
  \<^verbatim>\<open>rawData.data.accommodations\<close> and \<^verbatim>\<open>rawData.data.alternatives\<close>.
\<close>

datatype search_response = Rejected | NoData | Payload listings listings

text \<open>
  A date object: its time value (milliseconds since the epoch), which comparisons read, and
  its UTC fields, which \<^verbatim>\<open>toISOString\<close> prints. The environment gives both.
\<close>

record js_date =
  time_value :: int
  utc_year :: nat
  utc_month :: nat
  utc_day :: nat
  utc_hours :: nat
  utc_minutes :: nat
  utc_seconds :: nat
  utc_milliseconds :: nat

text \<open>
  The outside world: the answer to a search request, the \<^verbatim>\<open>data\<close> of the answer to a
  supplier lookup (\<open>None\<close> when \<^verbatim>\<open>axios.get\<close> throws), and what \<^verbatim>\<open>new Date()\<close> shows, each
  after the given number of events.
\<close>

record env =
  search_api :: "nat \<Rightarrow> request_body \<Rightarrow> search_response"
  card_api :: "nat \<Rightarrow> string \<Rightarrow> jsval option"
  clock :: "nat \<Rightarrow> js_date"

record world =
  results_file :: "result_record obj json_file"
  campsites_file :: "campsite list json_file"
  dates_file :: "string obj json_file"
  supplier_cache_file :: "jsval obj json_file"
  trace :: "event list"

text \<open>
  \<^verbatim>\<open>saveFile(path, data)\<close>, one definition for each file the server writes.
  \<^verbatim>\<open>fs.writeFileSync\<close> is taken to succeed.
\<close>

definition saveFile_results :: "result_record obj \<Rightarrow> world \<Rightarrow> world" where
  "saveFile_results data w = w\<lparr>results_file := Holds data, trace := trace w @ [Write DATA_FILE]\<rparr>"

definition saveFile_campsites :: "campsite list \<Rightarrow> world \<Rightarrow> world" where
  "saveFile_campsites data w =
     w\<lparr>campsites_file := Holds data, trace := trace w @ [Write CAMPSITES_FILE]\<rparr>"

definition saveFile_supplier_cache :: "jsval obj \<Rightarrow> world \<Rightarrow> world" where
  "saveFile_supplier_cache data w =
     w\<lparr>supplier_cache_file := Holds data, trace := trace w @ [Write SUPPLIER_CACHE_FILE]\<rparr>"

section \<open>Supplier cache\<close>

definition maxRetries :: nat where
  "maxRetries = 3"

text \<open>
  The \<^verbatim>\<open>while\<close> loop of \<^verbatim>\<open>fetchSupplierData\<close>. One round is one \<^verbatim>\<open>axios.get\<close>; if it
  succeeds the supplier is stored and returned, if it throws the attempt is counted.
\<close>

function fetchSupplierData_loop ::
  "env \<Rightarrow> string \<Rightarrow> jsval obj \<Rightarrow> nat \<Rightarrow> world \<Rightarrow> jsval \<times> world" where
  "fetchSupplierData_loop e itemId supplierCache attempt w =
     (if attempt < maxRetries then
        (let w1 = w\<lparr>trace := trace w @ [Get itemId]\<rparr> in
         case card_api e (length (trace w)) itemId of
           Some data \<Rightarrow>
             (let supplier = js_or (opt_member data ''supplier'') JNull
              in (supplier,
                  saveFile_supplier_cache (AList.update itemId supplier supplierCache) w1))
         | None \<Rightarrow>
             (if attempt + 1 \<ge> maxRetries then (JNull, w1)
              else fetchSupplierData_loop e itemId supplierCache (attempt + 1) w1))
      else (JUndefined, w))"
  by pat_completeness auto
termination
  by (relation "measure (\<lambda>(e, itemId, supplierCache, attempt, w). maxRetries - attempt)") auto

definition fetchSupplierData :: "env \<Rightarrow> string \<Rightarrow> world \<Rightarrow> jsval \<times> world" where
  "fetchSupplierData e itemId w =
     (let supplierCache = entries (loadFile (supplier_cache_file w) EmptyObject) in
      if truthy (member supplierCache itemId) then (member supplierCache itemId, w)
      else fetchSupplierData_loop e itemId supplierCache 0 w)"

section \<open>Fetching and transforming the listings of one date\<close>

definition digit_char :: "nat \<Rightarrow> char" where
  "digit_char n = ''0123456789'' ! (n mod 10)"

text \<open>
  The last \<open>w\<close> decimal digits of \<open>n\<close>, with leading zeros: the padded field of a date,
  whose value has at most \<open>w\<close> digits.
\<close>

fun pad :: "nat \<Rightarrow> nat \<Rightarrow> string" where
  "pad 0 n = []"
| "pad (Suc w) n = pad w (n div 10) @ [digit_char n]"

text \<open>
  \<^verbatim>\<open>Date.prototype.toISOString\<close>, from the UTC fields of the date (month and day counted
  from 1): \<^verbatim>\<open>YYYY-MM-DDTHH:mm:ss.sssZ\<close>, and a sign with six digits for a year after 9999.
\<close>

definition toISOString :: "js_date \<Rightarrow> string" where
  "toISOString d =
     (if utc_year d \<le> 9999 then pad 4 (utc_year d) else ''+'' @ pad 6 (utc_year d))
     @ ''-'' @ pad 2 (utc_month d) @ ''-'' @ pad 2 (utc_day d)
     @ ''T'' @ pad 2 (utc_hours d) @ '':'' @ pad 2 (utc_minutes d)
     @ '':'' @ pad 2 (utc_seconds d) @ ''.'' @ pad 3 (utc_milliseconds d) @ ''Z''"

text \<open>\<^verbatim>\<open>s.replace(c, r)\<close> for a pattern of one character: the first occurrence is replaced.\<close>

fun replace_first :: "char \<Rightarrow> string \<Rightarrow> string \<Rightarrow> string" where
  "replace_first c r [] = []"
| "replace_first c r (x # xs) = (if x = c then r @ xs else x # replace_first c r xs)"

text \<open>\<^verbatim>\<open>new Date().toISOString().replace("T", ", ").slice(0, 16)\<close>\<close>

definition ingestion_timestamp :: "js_date \<Rightarrow> string" where
  "ingestion_timestamp d = take 16 (replace_first CHR ''T'' '', '' (toISOString d))"

definition WEBSITE_NAME :: string where
  "WEBSITE_NAME = ''ALLCAMPS''"

text \<open>The template literal of the key.\<close>

definition composite_key :: "string \<Rightarrow> string \<Rightarrow> string \<Rightarrow> string" where
  "composite_key campsiteCode date itemId =
     campsiteCode @ ''_from_'' @ WEBSITE_NAME @ ''_at_'' @ date @ ''_#'' @ itemId"

definition transform :: "item \<Rightarrow> jsval \<Rightarrow> campsite \<Rightarrow> string \<Rightarrow> string \<Rightarrow> result_record" where
  "transform it suppl c date ts =
     \<lparr> rec_id = item_id it,
       rec_name = item_name it,
       rec_category = item_category it,
       rec_categorySlug = item_categorySlug it,
       rec_maxPersons = item_maxPersons it,
       rec_bedrooms = item_bedrooms it,
       rec_aircondition = item_aircondition it,
       rec_dogAllowed = item_dogAllowed it,
       rec_priceBeforeFeesBeforeDiscount = item_priceBeforeFeesBeforeDiscount it,
       rec_priceBeforeFeesAfterDiscount = item_priceBeforeFeesAfterDiscount it,
       rec_size = item_size it,
       rec_arrivalDate = item_arrivalDate it,
       rec_duration = item_duration it,
       supplier = suppl,
       campsite = code c,
       requestedDate = date,
       website = WEBSITE_NAME,
       timestamp = ts \<rparr>"

text \<open>
  The \<^verbatim>\<open>for ... of\<close> loop of \<^verbatim>\<open>fetchData\<close> over the combined listings. Reading \<^verbatim>\<open>item.id\<close>
  of a \<^verbatim>\<open>null\<close> element throws; the \<^verbatim>\<open>catch\<close> of \<^verbatim>\<open>fetchData\<close> then returns \<^verbatim>\<open>null\<close>,
  which is the result \<open>None\<close> here.
\<close>

fun fetchData_loop ::
  "env \<Rightarrow> campsite \<Rightarrow> string \<Rightarrow> string \<Rightarrow> item option list \<Rightarrow> result_record obj \<Rightarrow> world
     \<Rightarrow> result_record obj option \<times> world" where
  "fetchData_loop e c date ts [] transformedData w = (Some transformedData, w)"
| "fetchData_loop e c date ts (None # rest) transformedData w = (None, w)"
| "fetchData_loop e c date ts (Some it # rest) transformedData w =
     (case fetchSupplierData e (item_id it) w of
        (suppl, w') \<Rightarrow>
          fetchData_loop e c date ts rest
            (AList.update (composite_key (code c) date (item_id it))
               (transform it suppl c date ts) transformedData) w')"

text \<open>\<^verbatim>\<open>[...(x || [])]\<close>: the elements to spread, or \<open>None\<close> when spreading throws.\<close>

fun spread_or_empty :: "listings \<Rightarrow> item option list option" where
  "spread_or_empty Falsy = Some []"
| "spread_or_empty (Array xs) = Some xs"
| "spread_or_empty NotIterable = None"

definition fetchData ::
  "env \<Rightarrow> request_body \<Rightarrow> campsite \<Rightarrow> string \<Rightarrow> world \<Rightarrow> result_record obj option \<times> world" where
  "fetchData e body c date w =
     (let w1 = w\<lparr>trace := trace w @ [Post body]\<rparr> in
      case search_api e (length (trace w)) body of
        Rejected \<Rightarrow> (None, w1)
      | NoData \<Rightarrow> (None, w1)
      | Payload accommodations alternatives \<Rightarrow>
          (case spread_or_empty accommodations of
             None \<Rightarrow> (None, w1)
           | Some xs \<Rightarrow>
               (case spread_or_empty alternatives of
                  None \<Rightarrow> (None, w1)
                | Some ys \<Rightarrow>
                    (let combined = xs @ ys;
                         ts = ingestion_timestamp (clock e (length (trace w1)))
                     in fetchData_loop e c date ts combined [] w1))))"

section \<open>Scraping one campsite\<close>

text \<open>The loop of \<^verbatim>\<open>scrapeCampsite\<close> over the entries of the date table.\<close>

fun scrapeCampsite_loop ::
  "env \<Rightarrow> campsite \<Rightarrow> string obj \<Rightarrow> result_record obj \<Rightarrow> world \<Rightarrow> result_record obj \<times> world" where
  "scrapeCampsite_loop e c [] newResults w = (newResults, w)"
| "scrapeCampsite_loop e c ((dateName, date) # rest) newResults w =
     (case fetchData e (createRequestBody date c) c date w of
        (Some data, w') \<Rightarrow> scrapeCampsite_loop e c rest (object_assign newResults data) w'
      | (None, w') \<Rightarrow> scrapeCampsite_loop e c rest newResults w')"

text \<open>\<^verbatim>\<open>array.findIndex(p)\<close>, with \<open>None\<close> for \<^verbatim>\<open>-1\<close>.\<close>

fun findIndex :: "('a \<Rightarrow> bool) \<Rightarrow> 'a list \<Rightarrow> nat option" where
  "findIndex p [] = None"
| "findIndex p (x # xs) =
     (if p x then Some 0 else (case findIndex p xs of None \<Rightarrow> None | Some i \<Rightarrow> Some (Suc i)))"

text \<open>
  How an asynchronous function ends: it returns, or it throws a \<^verbatim>\<open>TypeError\<close> that nothing
  catches (calling \<^verbatim>\<open>find\<close> or \<^verbatim>\<open>findIndex\<close> on a registry that is not an array).
\<close>

datatype outcome = Returned | TypeError

text \<open>
  The removal of the old entries and the merge of \<^verbatim>\<open>scrapeCampsite\<close>:
  \<^verbatim>\<open>Object.fromEntries(Object.entries(currentResults).filter(...))\<close>, then
  \<^verbatim>\<open>Object.assign(updatedResults, newResults)\<close>.
\<close>

definition updatedResults ::
  "result_record obj \<Rightarrow> campsite \<Rightarrow> result_record obj \<Rightarrow> result_record obj" where
  "updatedResults currentResults campsiteToFetch newResults =
     object_assign
       (fromEntries (filter (\<lambda>(k, v). campsite v \<noteq> code campsiteToFetch) currentResults))
       newResults"

text \<open>
  \<^verbatim>\<open>scrapeCampsite\<close>. The assignment to \<^verbatim>\<open>campsiteToFetch.lastUpdate\<close> changes the object of
  the caller, which no caller reads afterwards; the registry that is saved is the one
  loaded at the start of the function.
\<close>

definition scrapeCampsite :: "env \<Rightarrow> campsite \<Rightarrow> world \<Rightarrow> outcome \<times> world" where
  "scrapeCampsite e campsiteToFetch w =
     (let dates = entries (loadFile (dates_file w) EmptyObject);
          campsites = loadFile (campsites_file w) EmptyObject;
          currentResults = entries (loadFile (results_file w) EmptyObject)
      in case scrapeCampsite_loop e campsiteToFetch dates [] w of
        (newResults, w1) \<Rightarrow>
          (let w2 = saveFile_results (updatedResults currentResults campsiteToFetch newResults) w1
           in if length (map fst newResults) > 0 then
                (let ts = clock e (length (trace w2)) in
                 case campsites of
                   Parsed cs \<Rightarrow>
                     (case findIndex (\<lambda>c. code c = code campsiteToFetch) cs of
                        Some campsiteIndex \<Rightarrow>
                          (Returned,
                           saveFile_campsites
                             (cs[campsiteIndex :=
                                (cs ! campsiteIndex)\<lparr>lastUpdate := UpdatedAt (time_value ts)\<rparr>])
                             w2)
                      | None \<Rightarrow> (Returned, w2))
                 | EmptyObject \<Rightarrow> (TypeError, w2)
                 | ErrorObject msg \<Rightarrow> (TypeError, w2))
              else (Returned, w2)))"

section \<open>Routes\<close>

definition REFRESH_INTERVAL :: int where
  "REFRESH_INTERVAL = 48 * 60 * 60 * 1000"

text \<open>The predicate of \<^verbatim>\<open>campsites.find\<close> in the route \<^verbatim>\<open>/scrape\<close>.\<close>

definition needsUpdate :: "int \<Rightarrow> campsite \<Rightarrow> bool" where
  "needsUpdate refreshTime c =
     (case lastUpdate c of
        NoUpdate \<Rightarrow> True
      | BadDate \<Rightarrow> False
      | UpdatedAt t \<Rightarrow> t < refreshTime)"

text \<open>The selection step of \<^verbatim>\<open>/scrape\<close> on a loaded registry, at the instant \<open>now\<close>.\<close>

definition campsiteToFetch :: "int \<Rightarrow> campsite list \<Rightarrow> campsite option" where
  "campsiteToFetch now campsites = find (needsUpdate (now - REFRESH_INTERVAL)) campsites"

text \<open>The deferred body of the route \<^verbatim>\<open>/scrape\<close>.\<close>

definition scrape_route :: "env \<Rightarrow> world \<Rightarrow> outcome \<times> world" where
  "scrape_route e w =
     (case loadFile (campsites_file w) EmptyObject of
        Parsed campsites \<Rightarrow>
          (case campsiteToFetch (time_value (clock e (length (trace w)))) campsites of
             Some c \<Rightarrow> scrapeCampsite e c w
           | None \<Rightarrow> (Returned, w))
      | EmptyObject \<Rightarrow> (TypeError, w)
      | ErrorObject msg \<Rightarrow> (TypeError, w))"

definition maintenanceMode :: bool where
  "maintenanceMode = False"

text \<open>The answer of a read accessor: status 503 from the middleware, or a JSON body.\<close>

datatype 'a response = ServiceUnavailable | Json "'a loaded"

definition data_route :: "world \<Rightarrow> result_record obj response" where
  "data_route w =
     (if maintenanceMode then ServiceUnavailable
      else Json (loadFile (results_file w)
                   (ErrorObject ''No data found. Please run a scrape first.'')))"

definition getCampsites_route :: "world \<Rightarrow> campsite list response" where
  "getCampsites_route w =
     (if maintenanceMode then ServiceUnavailable
      else Json (loadFile (campsites_file w)
                   (ErrorObject ''No campsites found. Please check setup configuration.'')))"

section \<open>What the fetch steps leave alone\<close>

text \<open>
  \<open>extends w w'\<close>: the world \<open>w'\<close> has the result store, the registry and the date table of
  \<open>w\<close>, and its trace is the trace of \<open>w\<close> followed by events that write neither the result
  store nor the registry.
\<close>

definition extends :: "world \<Rightarrow> world \<Rightarrow> bool" where
  "extends w w' \<longleftrightarrow>
     results_file w' = results_file w \<and> campsites_file w' = campsites_file w
     \<and> dates_file w' = dates_file w
     \<and> (\<exists>evs. trace w' = trace w @ evs
            \<and> Write DATA_FILE \<notin> set evs \<and> Write CAMPSITES_FILE \<notin> set evs)"

text \<open>
  \<open>every_fetch_fails e c dates w\<close>: in the run of the loop of \<^verbatim>\<open>scrapeCampsite\<close> that starts
  in the world \<open>w\<close>, \<^verbatim>\<open>fetchData\<close> returns \<^verbatim>\<open>null\<close> for every entry of the date table.
\<close>

fun every_fetch_fails :: "env \<Rightarrow> campsite \<Rightarrow> string obj \<Rightarrow> world \<Rightarrow> bool" where
  "every_fetch_fails e c [] w = True"
| "every_fetch_fails e c ((dateName, date) # rest) w =
     (case fetchData e (createRequestBody date c) c date w of
        (None, w') \<Rightarrow> every_fetch_fails e c rest w'
      | (Some data, w') \<Rightarrow> False)"

text \<open>
  \<open>always_lists e c date itemId\<close>: whenever the search for the campsite \<open>c\<close> and the date
  \<open>date\<close> is sent, the answer can be spread, has no \<^verbatim>\<open>null\<close> element and lists an item with
  the id \<open>itemId\<close>.
\<close>

definition always_lists :: "env \<Rightarrow> campsite \<Rightarrow> string \<Rightarrow> string \<Rightarrow> bool" where
  "always_lists e c date itemId \<longleftrightarrow>
     (\<forall>n. \<exists>a b xs ys it.
        search_api e n (createRequestBody date c) = Payload a b
        \<and> spread_or_empty a = Some xs \<and> spread_or_empty b = Some ys
        \<and> None \<notin> set (xs @ ys) \<and> Some it \<in> set (xs @ ys) \<and> item_id it = itemId)"

section \<open>A concrete scenario\<close>

text \<open>
  The scenario used for the concrete checks below: a campsite \<^verbatim>\<open>ABC\<close> that was never
  updated, the date table \<^verbatim>\<open>{"week1": "2025-06-01"}\<close>, a search answer of one listing with
  id 42 and no alternatives, a supplier lookup answered with \<^verbatim>\<open>{name: "Acme"}\<close>, and a
  clock that shows 2025-06-01T12:34:56.789Z.
\<close>

definition noon :: js_date where
  "noon = \<lparr> time_value = 1748781296789, utc_year = 2025, utc_month = 6, utc_day = 1,
            utc_hours = 12, utc_minutes = 34, utc_seconds = 56, utc_milliseconds = 789 \<rparr>"

definition acme :: jsval where
  "acme = JObj [(''name'', JStr ''Acme'')]"

definition listing42 :: item where
  "listing42 =
     \<lparr> item_id = ''42'', item_name = JStr ''Lodge'', item_category = JStr ''mobile-home'',
       item_categorySlug = JStr ''mobile-home'', item_maxPersons = JNum 4,
       item_bedrooms = JNum 2, item_aircondition = JBool True, item_dogAllowed = JBool False,
       item_priceBeforeFeesBeforeDiscount = JNum 700,
       item_priceBeforeFeesAfterDiscount = JNum 630, item_size = JNum 32,
       item_arrivalDate = JStr ''2025-06-01'', item_duration = JNum 7 \<rparr>"

definition campsiteABC :: campsite where
  "campsiteABC =
     \<lparr> code = ''ABC'', campsite_name = JStr ''Camping ABC'', campsite_country = JStr ''italy'',
       campsite_region = JStr ''veneto'', lastUpdate = NoUpdate \<rparr>"

text \<open>Both endpoints answer.\<close>

definition online :: env where
  "online =
     \<lparr> search_api = (\<lambda>n body. Payload (Array [Some listing42]) Falsy),
       card_api = (\<lambda>n itemId. Some (JObj [(''supplier'', acme)])),
       clock = (\<lambda>n. noon) \<rparr>"

text \<open>Every request fails.\<close>

definition offline :: env where
  "offline =
     \<lparr> search_api = (\<lambda>n body. Rejected),
       card_api = (\<lambda>n itemId. None),
       clock = (\<lambda>n. noon) \<rparr>"

definition fresh_install :: world where
  "fresh_install =
     \<lparr> results_file = Absent,
       campsites_file = Holds [campsiteABC],
       dates_file = Holds [(''week1'', ''2025-06-01'')],
       supplier_cache_file = Holds [],
       trace = [] \<rparr>"

definition campsiteXYZ :: campsite where
  "campsiteXYZ = campsiteABC\<lparr>code := ''XYZ'', lastUpdate := UpdatedAt 1748522096789\<rparr>"

text \<open>
  A store left by earlier scrapes: a record of \<^verbatim>\<open>ABC\<close> for an older date, and a record of
  another campsite \<^verbatim>\<open>XYZ\<close>.
\<close>

definition old_store :: "result_record obj" where
  "old_store =
     [(composite_key ''ABC'' ''2025-05-25'' ''7'',
       transform (listing42\<lparr>item_id := ''7''\<rparr>) JNull campsiteABC ''2025-05-25'' ''2025-05-20, 08:1''),
      (composite_key ''XYZ'' ''2025-06-01'' ''42'',
       transform listing42 acme campsiteXYZ ''2025-06-01'' ''2025-05-30, 08:1'')]"

text \<open>The installation with two dates in the date table.\<close>

definition two_weeks :: world where
  "two_weeks =
     fresh_install\<lparr>dates_file := Holds [(''week1'', ''2025-06-01''), (''week2'', ''2025-06-08'')]\<rparr>"

text \<open>
  The same scenario with a second listing, id 7, that the search offers as an alternative.
\<close>

definition listing7 :: item where
  "listing7 = listing42\<lparr>item_id := ''7'', item_name := JStr ''Tent''\<rparr>"

definition online_both :: env where
  "online_both =
     online\<lparr>search_api := (\<lambda>n body. Payload (Array [Some listing42]) (Array [Some listing7]))\<rparr>"

section \<open>Objects as lists of entries\<close>

text \<open>With the default \<^verbatim>\<open>{}\<close>, \<^verbatim>\<open>loadFile\<close> never returns an error object.\<close>

lemma loadFile_default_object: "loadFile f EmptyObject \<noteq> ErrorObject msg"
  by (cases f) (simp_all add: loadFile_def)

lemma set_update_subset: "set (AList.update k v al) \<subseteq> insert (k, v) (set al)"
  by (induction al) auto

lemma map_of_fold_update:
  "map_of (fold (\<lambda>(k, v) t. AList.update k v t) s t) = map_of t ++ map_of (rev s)"
proof (induction s arbitrary: t)
  case Nil
  then show ?case by simp
next
  case (Cons x s)
  obtain k v where x: "x = (k, v)" by (cases x)
  have "map_of (fold (\<lambda>(k, v) t. AList.update k v t) (x # s) t)
          = map_of (AList.update k v t) ++ map_of (rev s)"
    using Cons.IH[of "AList.update k v t"] by (simp add: x)
  also have "\<dots> = map_of t ++ map_of (rev (x # s))"
  proof (rule ext)
    fix a
    show "(map_of (AList.update k v t) ++ map_of (rev s)) a = (map_of t ++ map_of (rev (x # s))) a"
      by (simp add: x AList.update_conv' map_add_def split: option.splits)
  qed
  finally show ?case .
qed

lemma set_fold_update:
  "set (fold (\<lambda>(k, v) t. AList.update k v t) s t) \<subseteq> set t \<union> set s"
proof (induction s arbitrary: t)
  case Nil
  then show ?case by simp
next
  case (Cons x s)
  obtain k v where x: "x = (k, v)" by (cases x)
  from Cons.IH[of "AList.update k v t"] set_update_subset[of k v t]
  show ?case by (auto simp: x)
qed

lemma distinct_fold_update:
  "distinct (map fst t) \<Longrightarrow> distinct (map fst (fold (\<lambda>(k, v) t. AList.update k v t) s t))"
  by (induction s arbitrary: t) (auto simp: AList.distinct_update)

lemma keys_fold_update:
  "fst ` set (fold (\<lambda>(k, v) t. AList.update k v t) s t) = fst ` set t \<union> fst ` set s"
proof (induction s arbitrary: t)
  case Nil
  then show ?case by simp
next
  case (Cons x s)
  obtain k v where x: "x = (k, v)" by (cases x)
  have "fst ` set (fold (\<lambda>(k, v) t. AList.update k v t) (x # s) t)
          = fst ` set (AList.update k v t) \<union> fst ` set s"
    using Cons.IH[of "AList.update k v t"] by (simp add: x)
  also have "\<dots> = fst ` set t \<union> fst ` set (x # s)"
    by (simp add: x AList.dom_update)
  finally show ?case .
qed

lemma fold_update_distinct_append:
  "distinct (map fst (t @ s)) \<Longrightarrow> fold (\<lambda>(k, v) t. AList.update k v t) s t = t @ s"
proof (induction s arbitrary: t)
  case Nil
  then show ?case by simp
next
  case (Cons x s)
  obtain k v where x: "x = (k, v)" by (cases x)
  from Cons.prems have "k \<notin> fst ` set t" by (auto simp: x)
  then have upd: "AList.update k v t = t @ [(k, v)]"
    by (induction t) auto
  from Cons.prems have "distinct (map fst ((t @ [(k, v)]) @ s))" by (simp add: x)
  from Cons.IH[OF this] show ?case by (simp add: x upd)
qed

lemma fromEntries_distinct: "distinct (map fst es) \<Longrightarrow> fromEntries es = es"
  using fold_update_distinct_append[of "[]" es] by (simp add: fromEntries_def)

lemma distinct_map_of_rev: "distinct (map fst s) \<Longrightarrow> map_of (rev s) = map_of s"
proof (induction s)
  case Nil
  then show ?case by simp
next
  case (Cons x s)
  obtain k v where x: "x = (k, v)" by (cases x)
  from Cons.prems have k: "map_of s k = None"
    by (simp add: x map_of_eq_None_iff)
  from Cons have ih: "map_of (rev s) = map_of s" by simp
  show ?case
  proof (rule ext)
    fix a
    show "map_of (rev (x # s)) a = map_of (x # s) a"
      using k by (simp add: x ih map_add_def split: option.splits)
  qed
qed


lemma split_at_first_occurrence:
  "x \<notin> set a \<Longrightarrow> x \<notin> set b \<Longrightarrow> a @ x # r1 = b @ x # r2 \<Longrightarrow> a = b \<and> r1 = r2"
proof (induction a arbitrary: b)
  case Nil
  then show ?case by (cases b) auto
next
  case (Cons y a)
  then show ?case by (cases b) auto
qed

section \<open>The supplier cache: retries and cache hits\<close>

declare fetchSupplierData_loop.simps [simp del]

lemma fetchSupplierData_loop_done:
  "\<not> attempt < maxRetries \<Longrightarrow>
   fetchSupplierData_loop e itemId supplierCache attempt w = (JUndefined, w)"
  by (subst fetchSupplierData_loop.simps) simp

lemma fetchSupplierData_loop_unfold:
  "attempt < maxRetries \<Longrightarrow>
   fetchSupplierData_loop e itemId supplierCache attempt w =
     (case card_api e (length (trace w)) itemId of
        Some data \<Rightarrow>
          (js_or (opt_member data ''supplier'') JNull,
           saveFile_supplier_cache
             (AList.update itemId (js_or (opt_member data ''supplier'') JNull) supplierCache)
             (w\<lparr>trace := trace w @ [Get itemId]\<rparr>))
      | None \<Rightarrow>
          (if attempt + 1 \<ge> maxRetries then (JNull, w\<lparr>trace := trace w @ [Get itemId]\<rparr>)
           else fetchSupplierData_loop e itemId supplierCache (attempt + 1)
                  (w\<lparr>trace := trace w @ [Get itemId]\<rparr>)))"
  by (subst fetchSupplierData_loop.simps) (simp add: Let_def split: option.splits)

text \<open>If every remaining attempt fails, the loop gives \<^verbatim>\<open>null\<close> and only logs the requests.\<close>

lemma fetchSupplierData_loop_all_fail:
  assumes "\<forall>k < maxRetries - attempt. card_api e (length (trace w) + k) itemId = None"
    and "attempt < maxRetries"
  shows "fetchSupplierData_loop e itemId supplierCache attempt w =
           (JNull, w\<lparr>trace := trace w @ replicate (maxRetries - attempt) (Get itemId)\<rparr>)"
  using assms
proof (induction e itemId supplierCache attempt w rule: fetchSupplierData_loop.induct)
  case (1 e itemId supplierCache attempt w)
  from "1.prems" have here: "card_api e (length (trace w)) itemId = None"
    by (metis add.right_neutral zero_less_diff)
  show ?case
  proof (cases "attempt + 1 \<ge> maxRetries")
    case True
    with "1.prems" have "maxRetries - attempt = 1" by simp
    with here True "1.prems" show ?thesis
      by (simp add: fetchSupplierData_loop_unfold)
  next
    case False
    let ?w1 = "w\<lparr>trace := trace w @ [Get itemId]\<rparr>"
    have later: "\<forall>k < maxRetries - (attempt + 1). card_api e (length (trace ?w1) + k) itemId = None"
    proof (intro allI impI)
      fix k assume "k < maxRetries - (attempt + 1)"
      then have "Suc k < maxRetries - attempt" by simp
      with "1.prems" have "card_api e (length (trace w) + Suc k) itemId = None" by blast
      then show "card_api e (length (trace ?w1) + k) itemId = None" by simp
    qed
    have "fetchSupplierData_loop e itemId supplierCache (attempt + 1) ?w1 =
            (JNull, ?w1\<lparr>trace := trace ?w1 @ replicate (maxRetries - (attempt + 1)) (Get itemId)\<rparr>)"
      using "1.IH"[OF "1.prems"(2) refl here False later] False by simp
    moreover have "Get itemId # replicate (maxRetries - (attempt + 1)) (Get itemId)
                     = replicate (maxRetries - attempt) (Get itemId)"
      using "1.prems"(2) by (metis Suc_diff_Suc Suc_eq_plus1 replicate_Suc)
    ultimately show ?thesis
      using here False "1.prems" by (simp add: fetchSupplierData_loop_unfold)
  qed
qed

text \<open>What the loop leaves alone, and what it appends to the trace.\<close>

lemma fetchSupplierData_loop_frame:
  "results_file (snd (fetchSupplierData_loop e itemId supplierCache attempt w)) = results_file w
   \<and> campsites_file (snd (fetchSupplierData_loop e itemId supplierCache attempt w)) = campsites_file w
   \<and> dates_file (snd (fetchSupplierData_loop e itemId supplierCache attempt w)) = dates_file w
   \<and> (\<exists>evs. trace (snd (fetchSupplierData_loop e itemId supplierCache attempt w)) = trace w @ evs
          \<and> set evs \<subseteq> {Get itemId, Write SUPPLIER_CACHE_FILE})"
proof (induction e itemId supplierCache attempt w rule: fetchSupplierData_loop.induct)
  case (1 e itemId supplierCache attempt w)
  show ?case
  proof (cases "attempt < maxRetries")
    case False
    then show ?thesis by (simp add: fetchSupplierData_loop_done)
  next
    case lt: True
    show ?thesis
    proof (cases "card_api e (length (trace w)) itemId")
      case (Some data)
      with lt show ?thesis
        by (simp add: fetchSupplierData_loop_unfold saveFile_supplier_cache_def)
    next
      case None
      show ?thesis
      proof (cases "attempt + 1 \<ge> maxRetries")
        case True
        with lt None show ?thesis by (simp add: fetchSupplierData_loop_unfold)
      next
        case False
        let ?w1 = "w\<lparr>trace := trace w @ [Get itemId]\<rparr>"
        let ?r = "fetchSupplierData_loop e itemId supplierCache (attempt + 1) ?w1"
        from "1.IH"[OF lt refl None False] obtain evs where
          ih: "results_file (snd ?r) = results_file w"
              "campsites_file (snd ?r) = campsites_file w"
              "dates_file (snd ?r) = dates_file w"
              "trace (snd ?r) = trace w @ [Get itemId] @ evs"
              "set evs \<subseteq> {Get itemId, Write SUPPLIER_CACHE_FILE}"
          by auto
        have "set (Get itemId # evs) \<subseteq> {Get itemId, Write SUPPLIER_CACHE_FILE}"
          using ih(5) by auto
        with ih lt None False show ?thesis
          by (simp add: fetchSupplierData_loop_unfold)
      qed
    qed
  qed
qed

text \<open>The cache file changes only when a lookup is answered.\<close>

lemma fetchSupplierData_loop_cache_changed:
  "supplier_cache_file (snd (fetchSupplierData_loop e itemId supplierCache attempt w))
     \<noteq> supplier_cache_file w
   \<Longrightarrow> \<exists>k < maxRetries - attempt. card_api e (length (trace w) + k) itemId \<noteq> None"
proof (induction e itemId supplierCache attempt w rule: fetchSupplierData_loop.induct)
  case (1 e itemId supplierCache attempt w)
  show ?case
  proof (cases "attempt < maxRetries")
    case False
    with "1.prems" show ?thesis by (simp add: fetchSupplierData_loop_done)
  next
    case lt: True
    show ?thesis
    proof (cases "card_api e (length (trace w)) itemId")
      case (Some data)
      with lt have "0 < maxRetries - attempt \<and> card_api e (length (trace w) + 0) itemId \<noteq> None"
        by simp
      then show ?thesis by blast
    next
      case None
      show ?thesis
      proof (cases "attempt + 1 \<ge> maxRetries")
        case True
        with lt None "1.prems" show ?thesis by (simp add: fetchSupplierData_loop_unfold)
      next
        case False
        let ?w1 = "w\<lparr>trace := trace w @ [Get itemId]\<rparr>"
        from lt None False "1.prems"
        have "supplier_cache_file (snd (fetchSupplierData_loop e itemId supplierCache (attempt + 1) ?w1))
                \<noteq> supplier_cache_file ?w1"
          by (simp add: fetchSupplierData_loop_unfold)
        from "1.IH"[OF lt refl None False this] obtain k where
          k: "k < maxRetries - (attempt + 1)" "card_api e (length (trace ?w1) + k) itemId \<noteq> None"
          by blast
        then have "Suc k < maxRetries - attempt \<and> card_api e (length (trace w) + Suc k) itemId \<noteq> None"
          by simp
        then show ?thesis by blast
      qed
    qed
  qed
qed

text \<open>A miss sends at least one request.\<close>

lemma fetchSupplierData_loop_first_request:
  "\<exists>evs. trace (snd (fetchSupplierData_loop e itemId supplierCache 0 w))
            = trace w @ Get itemId # evs"
proof (cases "card_api e (length (trace w)) itemId")
  case (Some data)
  then show ?thesis
    by (simp add: fetchSupplierData_loop_unfold maxRetries_def saveFile_supplier_cache_def)
next
  case None
  let ?w1 = "w\<lparr>trace := trace w @ [Get itemId]\<rparr>"
  from fetchSupplierData_loop_frame[of e itemId supplierCache 1 ?w1] obtain evs where
    "trace (snd (fetchSupplierData_loop e itemId supplierCache 1 ?w1)) = trace ?w1 @ evs"
    by blast
  with None show ?thesis
    by (simp add: fetchSupplierData_loop_unfold[of 0] maxRetries_def)
qed

text \<open>A cached value that is truthy is returned without any effect.\<close>

lemma fetchSupplierData_cache_hit:
  assumes "map_of (entries (loadFile (supplier_cache_file w) EmptyObject)) itemId = Some v"
    and "truthy v"
  shows "fetchSupplierData e itemId w = (v, w)"
  using assms by (simp add: fetchSupplierData_def member_def)

text \<open>A cached \<^verbatim>\<open>null\<close> is no hit: the lookup is sent.\<close>

lemma fetchSupplierData_cached_null_miss:
  assumes "map_of (entries (loadFile (supplier_cache_file w) EmptyObject)) itemId = Some JNull"
  shows "\<exists>evs. trace (snd (fetchSupplierData e itemId w)) = trace w @ Get itemId # evs"
proof -
  from assms have "\<not> truthy (member (entries (loadFile (supplier_cache_file w) EmptyObject)) itemId)"
    by (simp add: member_def)
  with fetchSupplierData_loop_first_request[of e itemId
      "entries (loadFile (supplier_cache_file w) EmptyObject)" w]
  show ?thesis by (simp add: fetchSupplierData_def)
qed

text \<open>
  C2. The specification says that an item id present in the supplier cache is resolved
  without any request, also when the cached value is \<^verbatim>\<open>null\<close>. The code tests the truth
  value of the cached entry instead of its presence, so a cached \<^verbatim>\<open>null\<close> (which the code
  itself stores after an answer without supplier) counts as a miss: with the cache
  \<^verbatim>\<open>{"42": null}\<close> the lookup is sent, the answer is returned and the entry is overwritten.
\<close>

theorem fetchSupplierData_cached_null_is_refetched:
  "fetchSupplierData online ''42'' (fresh_install\<lparr>supplier_cache_file := Holds [(''42'', JNull)]\<rparr>)
     = (acme,
        fresh_install\<lparr>supplier_cache_file := Holds [(''42'', acme)],
                      trace := [Get ''42'', Write SUPPLIER_CACHE_FILE]\<rparr>)"
  by (simp add: fetchSupplierData_def loadFile_def member_def fromEntries_def
      fetchSupplierData_loop_unfold maxRetries_def online_def fresh_install_def js_or_def
      acme_def saveFile_supplier_cache_def)

text \<open>
  C5. If the cache has no truthy entry for the item id and the three lookups fail,
  \<^verbatim>\<open>fetchSupplierData\<close> returns \<^verbatim>\<open>null\<close>, the cache file is what it was, the trace gains
  the three requests and no write, and a second call sends a request again. In every
  case, the cache file is changed only if one of the three lookups was answered.
\<close>

theorem fetchSupplierData_retry_exhaustion:
  "(\<not> truthy (member (entries (loadFile (supplier_cache_file w) EmptyObject)) itemId)
      \<and> (\<forall>k<3. card_api e (length (trace w) + k) itemId = None)
    \<longrightarrow> fst (fetchSupplierData e itemId w) = JNull
        \<and> supplier_cache_file (snd (fetchSupplierData e itemId w)) = supplier_cache_file w
        \<and> trace (snd (fetchSupplierData e itemId w)) = trace w @ [Get itemId, Get itemId, Get itemId]
        \<and> (\<exists>evs. trace (snd (fetchSupplierData e itemId (snd (fetchSupplierData e itemId w))))
                    = trace (snd (fetchSupplierData e itemId w)) @ Get itemId # evs))
   \<and> (supplier_cache_file (snd (fetchSupplierData e itemId w)) \<noteq> supplier_cache_file w
        \<longrightarrow> (\<exists>k<3. card_api e (length (trace w) + k) itemId \<noteq> None))"
proof (intro conjI impI)
  assume h: "\<not> truthy (member (entries (loadFile (supplier_cache_file w) EmptyObject)) itemId)
      \<and> (\<forall>k<3. card_api e (length (trace w) + k) itemId = None)"
  let ?cache = "entries (loadFile (supplier_cache_file w) EmptyObject)"
  let ?w' = "w\<lparr>trace := trace w @ [Get itemId, Get itemId, Get itemId]\<rparr>"
  have "fetchSupplierData_loop e itemId ?cache 0 w
          = (JNull, w\<lparr>trace := trace w @ replicate (maxRetries - 0) (Get itemId)\<rparr>)"
    using h by (intro fetchSupplierData_loop_all_fail) (simp_all add: maxRetries_def)
  then have r: "fetchSupplierData e itemId w = (JNull, ?w')"
    using h by (simp add: fetchSupplierData_def maxRetries_def eval_nat_numeral)
  show "fst (fetchSupplierData e itemId w) = JNull" using r by simp
  show "supplier_cache_file (snd (fetchSupplierData e itemId w)) = supplier_cache_file w"
    using r by simp
  show "trace (snd (fetchSupplierData e itemId w)) = trace w @ [Get itemId, Get itemId, Get itemId]"
    using r by simp
  have miss': "\<not> truthy (member (entries (loadFile (supplier_cache_file ?w') EmptyObject)) itemId)"
    using h by simp
  from fetchSupplierData_loop_first_request[of e itemId ?cache ?w'] obtain evs where
    "trace (snd (fetchSupplierData_loop e itemId ?cache 0 ?w')) = trace ?w' @ Get itemId # evs"
    by blast
  with miss' have "trace (snd (fetchSupplierData e itemId ?w')) = trace ?w' @ Get itemId # evs"
    by (simp add: fetchSupplierData_def)
  then show "\<exists>evs. trace (snd (fetchSupplierData e itemId (snd (fetchSupplierData e itemId w))))
                    = trace (snd (fetchSupplierData e itemId w)) @ Get itemId # evs"
    using r by simp
next
  assume ch: "supplier_cache_file (snd (fetchSupplierData e itemId w)) \<noteq> supplier_cache_file w"
  let ?cache = "entries (loadFile (supplier_cache_file w) EmptyObject)"
  from ch have "\<not> truthy (member ?cache itemId)"
    by (auto simp: fetchSupplierData_def Let_def split: if_splits)
  with ch have "supplier_cache_file (snd (fetchSupplierData_loop e itemId ?cache 0 w)) \<noteq> supplier_cache_file w"
    by (simp add: fetchSupplierData_def)
  from fetchSupplierData_loop_cache_changed[OF this]
  show "\<exists>k<3. card_api e (length (trace w) + k) itemId \<noteq> None"
    by (simp add: maxRetries_def)
qed

theorem fetchSupplierData_retry_exhaustion_witness:
  "fst (fetchSupplierData offline ''42'' fresh_install) = JNull
   \<and> supplier_cache_file (snd (fetchSupplierData offline ''42'' fresh_install)) = Holds []
   \<and> trace (snd (fetchSupplierData offline ''42'' fresh_install)) = [Get ''42'', Get ''42'', Get ''42'']"
  using fetchSupplierData_retry_exhaustion[of fresh_install "''42''" offline]
  by (simp add: fresh_install_def offline_def loadFile_def member_def fromEntries_def)

section \<open>The ingestion timestamp\<close>

lemma pad_numeral:
  "pad (numeral k) n = pad (pred_numeral k) (n div 10) @ [digit_char n]"
  by (simp only: numeral_eq_Suc[of k] pad.simps)

lemma length_pad: "length (pad w n) = w"
  by (induction w arbitrary: n) simp_all

lemma digit_char_not_T: "digit_char n \<noteq> CHR ''T''"
proof -
  have "n mod 10 < length ''0123456789''" by simp
  then have "digit_char n \<in> set ''0123456789''"
    unfolding digit_char_def by (rule nth_mem)
  then show ?thesis by auto
qed

lemma pad_no_T: "CHR ''T'' \<notin> set (pad w n)"
  by (induction w arbitrary: n) (simp_all add: digit_char_not_T[THEN not_sym])

lemma take_front: "length xs = n \<Longrightarrow> take n (xs @ ys) = xs"
  by simp

lemma replace_first_append:
  "c \<notin> set xs \<Longrightarrow> replace_first c r (xs @ ys) = xs @ replace_first c r ys"
  by (induction xs) auto

lemma ingestion_timestamp_shape:
  assumes "utc_year d \<le> 9999"
  shows "ingestion_timestamp d =
           pad 4 (utc_year d) @ ''-'' @ pad 2 (utc_month d) @ ''-'' @ pad 2 (utc_day d)
           @ '', '' @ pad 2 (utc_hours d) @ '':'' @ [digit_char (utc_minutes d div 10)]"
proof -
  let ?date = "pad 4 (utc_year d) @ ''-'' @ pad 2 (utc_month d) @ ''-'' @ pad 2 (utc_day d)"
  let ?rest = "pad 2 (utc_hours d) @ '':'' @ pad 2 (utc_minutes d)
               @ '':'' @ pad 2 (utc_seconds d) @ ''.'' @ pad 3 (utc_milliseconds d) @ ''Z''"
  let ?tail = "digit_char (utc_minutes d) # '':'' @ pad 2 (utc_seconds d) @ ''.'' @ pad 3 (utc_milliseconds d) @ ''Z''"
  let ?front = "?date @ '', '' @ pad 2 (utc_hours d) @ '':'' @ [digit_char (utc_minutes d div 10)]"
  have iso: "toISOString d = ?date @ ''T'' @ ?rest"
    using assms by (simp add: toISOString_def)
  have "CHR ''T'' \<notin> set ?date" by (simp add: pad_no_T)
  then have "replace_first CHR ''T'' '', '' (toISOString d) = ?date @ '', '' @ ?rest"
    unfolding iso by (subst replace_first_append) simp_all
  moreover have "pad 2 (utc_minutes d) = [digit_char (utc_minutes d div 10), digit_char (utc_minutes d)]"
    by (simp add: pad_numeral)
  ultimately have split: "replace_first CHR ''T'' '', '' (toISOString d) = ?front @ ?tail"
    by simp
  have "ingestion_timestamp d = take 16 (?front @ ?tail)"
    unfolding ingestion_timestamp_def split ..
  also have "\<dots> = ?front"
    by (rule take_front) (simp add: length_pad)
  finally show ?thesis by simp
qed

text \<open>
  C8. The specification promises the format \<^verbatim>\<open>YYYY-MM-DD, HH:MM\<close>. Replacing \<^verbatim>\<open>T\<close> by
  a comma and a space makes the text one character longer, and \<^verbatim>\<open>slice(0, 16)\<close> still cuts
  after 16 characters: the second digit of the minutes is lost. At
  2025-06-01T12:34:56.789Z the timestamp is \<^verbatim>\<open>2025-06-01, 12:3\<close>.
\<close>

theorem ingestion_timestamp_cuts_minutes:
  "toISOString noon = ''2025-06-01T12:34:56.789Z''
   \<and> ingestion_timestamp noon = ''2025-06-01, 12:3''
   \<and> ingestion_timestamp noon \<noteq> ''2025-06-01, 12:34''"
  by (simp add: ingestion_timestamp_def toISOString_def digit_char_def noon_def pad_numeral)

section \<open>The fetch step\<close>

lemma extends_refl: "extends w w"
  by (simp add: extends_def)

lemma extends_trans: "extends w w1 \<Longrightarrow> extends w1 w2 \<Longrightarrow> extends w w2"
  by (auto simp: extends_def)

lemma extends_log: "ev \<noteq> Write DATA_FILE \<Longrightarrow> ev \<noteq> Write CAMPSITES_FILE \<Longrightarrow>
    extends w (w\<lparr>trace := trace w @ [ev]\<rparr>)"
  by (simp add: extends_def)

lemma fetchSupplierData_extends: "extends w (snd (fetchSupplierData e itemId w))"
proof (cases "truthy (member (entries (loadFile (supplier_cache_file w) EmptyObject)) itemId)")
  case True
  then show ?thesis by (simp add: fetchSupplierData_def extends_refl)
next
  case False
  let ?cache = "entries (loadFile (supplier_cache_file w) EmptyObject)"
  from fetchSupplierData_loop_frame[of e itemId ?cache 0 w]
  have "extends w (snd (fetchSupplierData_loop e itemId ?cache 0 w))"
    by (auto simp: extends_def)
  with False show ?thesis by (simp add: fetchSupplierData_def)
qed

lemma fetchData_loop_extends:
  "extends w (snd (fetchData_loop e c date ts items acc w))"
proof (induction e c date ts items acc w rule: fetchData_loop.induct)
  case (1 e c date ts transformedData w)
  then show ?case by (simp add: extends_refl)
next
  case (2 e c date ts rest transformedData w)
  then show ?case by (simp add: extends_refl)
next
  case (3 e c date ts it rest transformedData w)
  obtain suppl w' where f: "fetchSupplierData e (item_id it) w = (suppl, w')"
    by (cases "fetchSupplierData e (item_id it) w")
  from fetchSupplierData_extends[of w e "item_id it"] f have "extends w w'" by simp
  moreover from "3.IH"[OF f[symmetric]]
  have "extends w' (snd (fetchData_loop e c date ts rest
            (AList.update (composite_key (code c) date (item_id it))
               (transform it suppl c date ts) transformedData) w'))" .
  ultimately show ?case using f by (simp add: extends_trans)
qed

lemma fetchData_loop_None:
  "None \<in> set items \<Longrightarrow> fst (fetchData_loop e c date ts items acc w) = None"
  by (induction e c date ts items acc w rule: fetchData_loop.induct)
     (auto split: prod.splits)

lemma fetchData_loop_Some:
  "None \<notin> set items \<Longrightarrow> \<exists>m. fst (fetchData_loop e c date ts items acc w) = Some m"
  by (induction e c date ts items acc w rule: fetchData_loop.induct)
     (auto split: prod.splits)

lemma fetchData_loop_records:
  "fst (fetchData_loop e c date ts items acc w) = Some m \<Longrightarrow> (k, r) \<in> set m \<Longrightarrow>
   (k, r) \<in> set acc
   \<or> (\<exists>it s. Some it \<in> set items \<and> k = composite_key (code c) date (item_id it)
              \<and> r = transform it s c date ts)"
proof (induction e c date ts items acc w rule: fetchData_loop.induct)
  case (1 e c date ts transformedData w)
  then show ?case by simp
next
  case (2 e c date ts rest transformedData w)
  then show ?case by simp
next
  case (3 e c date ts it rest transformedData w)
  obtain suppl w' where f: "fetchSupplierData e (item_id it) w = (suppl, w')"
    by (cases "fetchSupplierData e (item_id it) w")
  let ?acc = "AList.update (composite_key (code c) date (item_id it))
               (transform it suppl c date ts) transformedData"
  from "3.prems"(1) f have "fst (fetchData_loop e c date ts rest ?acc w') = Some m" by simp
  from "3.IH"[OF f[symmetric] this "3.prems"(2)]
  consider "(k, r) \<in> set ?acc"
    | "\<exists>it s. Some it \<in> set rest \<and> k = composite_key (code c) date (item_id it)
              \<and> r = transform it s c date ts"
    by blast
  then show ?case
  proof cases
    case 1
    with set_update_subset[of "composite_key (code c) date (item_id it)"
        "transform it suppl c date ts" transformedData]
    have "(k, r) = (composite_key (code c) date (item_id it), transform it suppl c date ts)
          \<or> (k, r) \<in> set transformedData" by blast
    then show ?thesis by auto
  next
    case 2
    then show ?thesis by auto
  qed
qed

lemma fetchData_loop_keys:
  "fst (fetchData_loop e c date ts items acc w) = Some m \<Longrightarrow>
   fst ` set m = fst ` set acc
      \<union> {composite_key (code c) date (item_id it) |it. Some it \<in> set items}"
proof (induction e c date ts items acc w rule: fetchData_loop.induct)
  case (1 e c date ts transformedData w)
  then show ?case by simp
next
  case (2 e c date ts rest transformedData w)
  then show ?case by simp
next
  case (3 e c date ts it rest transformedData w)
  obtain suppl w' where f: "fetchSupplierData e (item_id it) w = (suppl, w')"
    by (cases "fetchSupplierData e (item_id it) w")
  let ?acc = "AList.update (composite_key (code c) date (item_id it))
               (transform it suppl c date ts) transformedData"
  from "3.prems"(1) f have "fst (fetchData_loop e c date ts rest ?acc w') = Some m" by simp
  from "3.IH"[OF f[symmetric] this]
  have "fst ` set m = fst ` set ?acc
      \<union> {composite_key (code c) date (item_id it) |it. Some it \<in> set rest}" .
  then show ?case by (auto simp: AList.dom_update)
qed

lemma fetchData_loop_distinct:
  "fst (fetchData_loop e c date ts items acc w) = Some m \<Longrightarrow> distinct (map fst acc)
   \<Longrightarrow> distinct (map fst m)"
proof (induction e c date ts items acc w rule: fetchData_loop.induct)
  case (1 e c date ts transformedData w)
  then show ?case by simp
next
  case (2 e c date ts rest transformedData w)
  then show ?case by simp
next
  case (3 e c date ts it rest transformedData w)
  obtain suppl w' where f: "fetchSupplierData e (item_id it) w = (suppl, w')"
    by (cases "fetchSupplierData e (item_id it) w")
  let ?acc = "AList.update (composite_key (code c) date (item_id it))
               (transform it suppl c date ts) transformedData"
  from "3.prems"(1) f have "fst (fetchData_loop e c date ts rest ?acc w') = Some m" by simp
  moreover from "3.prems"(2) have "distinct (map fst ?acc)" by (simp add: AList.distinct_update)
  ultimately show ?case using "3.IH"[OF f[symmetric]] by blast
qed

text \<open>The listings that \<^verbatim>\<open>fetchData\<close> transforms, if the answer has any.\<close>

lemma fetchData_success:
  assumes "fst (fetchData e body c date w) = Some m"
  shows "\<exists>a b xs ys. search_api e (length (trace w)) body = Payload a b
           \<and> spread_or_empty a = Some xs \<and> spread_or_empty b = Some ys
           \<and> None \<notin> set (xs @ ys)
           \<and> fetchData e body c date w =
               fetchData_loop e c date
                 (ingestion_timestamp (clock e (Suc (length (trace w))))) (xs @ ys) []
                 (w\<lparr>trace := trace w @ [Post body]\<rparr>)"
proof (cases "search_api e (length (trace w)) body")
  case Rejected
  with assms show ?thesis by (simp add: fetchData_def)
next
  case NoData
  with assms show ?thesis by (simp add: fetchData_def)
next
  case (Payload a b)
  with assms obtain xs ys where sp: "spread_or_empty a = Some xs" "spread_or_empty b = Some ys"
    by (auto simp: fetchData_def Let_def split: option.splits)
  with Payload have eq: "fetchData e body c date w =
               fetchData_loop e c date
                 (ingestion_timestamp (clock e (Suc (length (trace w))))) (xs @ ys) []
                 (w\<lparr>trace := trace w @ [Post body]\<rparr>)"
    by (simp add: fetchData_def Let_def)
  have "None \<notin> set (xs @ ys)"
  proof
    assume "None \<in> set (xs @ ys)"
    from fetchData_loop_None[OF this] eq assms show False by simp
  qed
  with Payload sp eq show ?thesis by blast
qed

lemma fetchData_extends: "extends w (snd (fetchData e body c date w))"
proof -
  have base: "extends w (w\<lparr>trace := trace w @ [Post body]\<rparr>)"
    by (simp add: extends_log)
  show ?thesis
  proof (cases "fst (fetchData e body c date w)")
    case None
    then show ?thesis
      using base fetchData_loop_extends[of "w\<lparr>trace := trace w @ [Post body]\<rparr>" e c date]
      by (auto simp: fetchData_def Let_def extends_trans split: search_response.splits option.splits)
  next
    case (Some m)
    from fetchData_success[OF this] obtain ts items where
      "fetchData e body c date w = fetchData_loop e c date ts items [] (w\<lparr>trace := trace w @ [Post body]\<rparr>)"
      by blast
    with base fetchData_loop_extends[of "w\<lparr>trace := trace w @ [Post body]\<rparr>" e c date ts items "[]"]
    show ?thesis by (simp add: extends_trans)
  qed
qed

lemma fetchData_records:
  assumes "fst (fetchData e body c date w) = Some m" and "(k, r) \<in> set m"
  shows "\<exists>it s ts. k = composite_key (code c) date (item_id it) \<and> r = transform it s c date ts"
proof -
  from fetchData_success[OF assms(1)] obtain ts items where
    "fetchData e body c date w = fetchData_loop e c date ts items [] (w\<lparr>trace := trace w @ [Post body]\<rparr>)"
    by blast
  with assms(1) have "fst (fetchData_loop e c date ts items [] (w\<lparr>trace := trace w @ [Post body]\<rparr>)) = Some m"
    by simp
  from fetchData_loop_records[OF this assms(2)] show ?thesis by auto
qed

lemma fetchData_distinct:
  assumes "fst (fetchData e body c date w) = Some m"
  shows "distinct (map fst m)"
proof -
  from fetchData_success[OF assms(1)] obtain ts items where
    "fetchData e body c date w = fetchData_loop e c date ts items [] (w\<lparr>trace := trace w @ [Post body]\<rparr>)"
    by blast
  with assms(1) have "fst (fetchData_loop e c date ts items [] (w\<lparr>trace := trace w @ [Post body]\<rparr>)) = Some m"
    by simp
  from fetchData_loop_distinct[OF this] show ?thesis by simp
qed

section \<open>Scraping one campsite: the loop and the merge\<close>

lemma distinct_fromEntries: "distinct (map fst (fromEntries es))"
  using distinct_fold_update[of "[]" es] by (simp add: fromEntries_def)

lemma distinct_entries: "distinct (map fst (entries l))"
  by (cases l) (simp_all add: distinct_fromEntries)


lemma distinct_filter_entries: "distinct (map fst xs) \<Longrightarrow> distinct (map fst (filter P xs))"
  by (simp add: distinct_map_filter)



lemma scrapeCampsite_loop_extends:
  "extends w (snd (scrapeCampsite_loop e c dates newResults w))"
proof (induction e c dates newResults w rule: scrapeCampsite_loop.induct)
  case (1 e c newResults w)
  then show ?case by (simp add: extends_refl)
next
  case (2 e c dateName date rest newResults w)
  obtain data w' where f: "fetchData e (createRequestBody date c) c date w = (data, w')"
    by (cases "fetchData e (createRequestBody date c) c date w")
  from fetchData_extends[of w e "createRequestBody date c" c date] f have w': "extends w w'"
    by simp
  show ?case
  proof (cases data)
    case None
    with "2.IH"(1)[OF f[symmetric] None] w' f show ?thesis
      by (simp add: extends_trans)
  next
    case (Some d)
    with "2.IH"(2)[OF f[symmetric] Some] w' f show ?thesis
      by (simp add: extends_trans)
  qed
qed

lemma scrapeCampsite_loop_distinct:
  "distinct (map fst newResults) \<Longrightarrow>
   distinct (map fst (fst (scrapeCampsite_loop e c dates newResults w)))"
proof (induction e c dates newResults w rule: scrapeCampsite_loop.induct)
  case (1 e c newResults w)
  then show ?case by simp
next
  case (2 e c dateName date rest newResults w)
  obtain data w' where f: "fetchData e (createRequestBody date c) c date w = (data, w')"
    by (cases "fetchData e (createRequestBody date c) c date w")
  show ?case
  proof (cases data)
    case None
    with "2.IH"(1)[OF f[symmetric] None "2.prems"] f show ?thesis by simp
  next
    case (Some d)
    from "2.prems" have "distinct (map fst (object_assign newResults d))"
      by (simp add: object_assign_def distinct_fold_update)
    with "2.IH"(2)[OF f[symmetric] Some] Some f show ?thesis by simp
  qed
qed

lemma scrapeCampsite_loop_records:
  "(k, r) \<in> set (fst (scrapeCampsite_loop e c dates newResults w)) \<Longrightarrow>
   (k, r) \<in> set newResults
   \<or> (\<exists>dateName date it s ts. (dateName, date) \<in> set dates
          \<and> k = composite_key (code c) date (item_id it) \<and> r = transform it s c date ts)"
proof (induction e c dates newResults w rule: scrapeCampsite_loop.induct)
  case (1 e c newResults w)
  then show ?case by simp
next
  case (2 e c dateName date rest newResults w)
  obtain data w' where f: "fetchData e (createRequestBody date c) c date w = (data, w')"
    by (cases "fetchData e (createRequestBody date c) c date w")
  have later: "\<exists>dn d it s ts. (dn, d) \<in> set ((dateName, date) # rest)
          \<and> k = composite_key (code c) d (item_id it) \<and> r = transform it s c d ts"
    if "\<exists>dn d it s ts. (dn, d) \<in> set rest
          \<and> k = composite_key (code c) d (item_id it) \<and> r = transform it s c d ts"
  proof -
    from that obtain dn d it s ts where "(dn, d) \<in> set rest"
      "k = composite_key (code c) d (item_id it)" "r = transform it s c d ts" by blast
    moreover from this have "(dn, d) \<in> set ((dateName, date) # rest)" by simp
    ultimately show ?thesis by blast
  qed
  show ?case
  proof (cases data)
    case None
    with "2.prems" f have "(k, r) \<in> set (fst (scrapeCampsite_loop e c rest newResults w'))"
      by simp
    from "2.IH"(1)[OF f[symmetric] None this] later show ?thesis by blast
  next
    case (Some d)
    with "2.prems" f
    have "(k, r) \<in> set (fst (scrapeCampsite_loop e c rest (object_assign newResults d) w'))"
      by simp
    from "2.IH"(2)[OF f[symmetric] Some this]
    consider "(k, r) \<in> set (object_assign newResults d)"
      | "\<exists>dn d it s ts. (dn, d) \<in> set rest
          \<and> k = composite_key (code c) d (item_id it) \<and> r = transform it s c d ts"
      by blast
    then show ?thesis
    proof cases
      case 1
      with set_fold_update[of d newResults] have "(k, r) \<in> set newResults \<or> (k, r) \<in> set d"
        by (auto simp: object_assign_def)
      then show ?thesis
      proof
        assume "(k, r) \<in> set newResults" then show ?thesis by simp
      next
        assume kr: "(k, r) \<in> set d"
        from f Some have "fst (fetchData e (createRequestBody date c) c date w) = Some d" by simp
        from fetchData_records[OF this kr] obtain it s ts where
          "k = composite_key (code c) date (item_id it)" "r = transform it s c date ts" by blast
        moreover have "(dateName, date) \<in> set ((dateName, date) # rest)" by simp
        ultimately show ?thesis by blast
      qed
    next
      case 2
      with later show ?thesis by blast
    qed
  qed
qed

lemma scrapeCampsite_loop_every_fetch_fails:
  "every_fetch_fails e c dates w \<Longrightarrow>
   fst (scrapeCampsite_loop e c dates newResults w) = newResults"
proof (induction e c dates newResults w rule: scrapeCampsite_loop.induct)
  case (1 e c newResults w)
  then show ?case by simp
next
  case (2 e c dateName date rest newResults w)
  obtain data w' where f: "fetchData e (createRequestBody date c) c date w = (data, w')"
    by (cases "fetchData e (createRequestBody date c) c date w")
  from "2.prems" f have None: "data = None" and rest: "every_fetch_fails e c rest w'"
    by (auto split: option.splits)
  from "2.IH"(1)[OF f[symmetric] None rest] f None show ?case by simp
qed

text \<open>What \<^verbatim>\<open>scrapeCampsite\<close> does after the loop.\<close>

lemma scrapeCampsite_after_loop:
  assumes "scrapeCampsite_loop e c (entries (loadFile (dates_file w) EmptyObject)) [] w = (newResults, w1)"
  shows "results_file (snd (scrapeCampsite e c w)) =
           Holds (updatedResults (entries (loadFile (results_file w) EmptyObject)) c newResults)"
    and "\<exists>tail. trace (snd (scrapeCampsite e c w)) = trace w1 @ Write DATA_FILE # tail
            \<and> (tail = [] \<or> tail = [Write CAMPSITES_FILE])"
    and "newResults = [] \<Longrightarrow>
           scrapeCampsite e c w =
             (Returned,
              saveFile_results
                (updatedResults (entries (loadFile (results_file w) EmptyObject)) c []) w1)"
  using assms
  by (auto simp: scrapeCampsite_def Let_def saveFile_results_def saveFile_campsites_def
      split: loaded.splits option.splits)

section \<open>The scenario, evaluated\<close>

lemma item_id_listing42 [simp]: "item_id listing42 = ''42''"
  by (simp add: listing42_def)

lemma code_campsiteABC [simp]: "code campsiteABC = ''ABC''"
  by (simp add: campsiteABC_def)

lemma ingestion_timestamp_noon: "ingestion_timestamp noon = ''2025-06-01, 12:3''"
  by (simp add: ingestion_timestamp_def toISOString_def digit_char_def noon_def pad_numeral)

lemma fetchSupplierData_online_miss:
  assumes "\<not> truthy (member (entries (loadFile (supplier_cache_file w) EmptyObject)) itemId)"
  shows "fetchSupplierData online itemId w =
           (acme,
            w\<lparr>supplier_cache_file :=
                 Holds (AList.update itemId acme
                          (entries (loadFile (supplier_cache_file w) EmptyObject))),
              trace := trace w @ [Get itemId, Write SUPPLIER_CACHE_FILE]\<rparr>)"
  using assms
  by (simp add: fetchSupplierData_def fetchSupplierData_loop_unfold maxRetries_def online_def
      js_or_def acme_def saveFile_supplier_cache_def)

lemma fetchData_online_miss:
  assumes "\<not> truthy (member (entries (loadFile (supplier_cache_file w) EmptyObject)) ''42'')"
  shows "fetchData online body c date w =
           (Some [(composite_key (code c) date ''42'',
                   transform listing42 acme c date ''2025-06-01, 12:3'')],
            w\<lparr>supplier_cache_file :=
                 Holds (AList.update ''42'' acme
                          (entries (loadFile (supplier_cache_file w) EmptyObject))),
              trace := trace w @ [Post body, Get ''42'', Write SUPPLIER_CACHE_FILE]\<rparr>)"
proof -
  let ?w1 = "w\<lparr>trace := trace w @ [Post body]\<rparr>"
  have "\<not> truthy (member (entries (loadFile (supplier_cache_file ?w1) EmptyObject)) ''42'')"
    using assms by simp
  from fetchSupplierData_online_miss[OF this]
  show ?thesis
    by (simp add: fetchData_def Let_def ingestion_timestamp_noon)
       (simp add: online_def ingestion_timestamp_noon)
qed

lemma scrapeCampsite_online:
  "scrapeCampsite online campsiteABC (fresh_install\<lparr>results_file := prior\<rparr>) =
     (Returned,
      \<lparr> results_file =
          Holds (updatedResults (entries (loadFile prior EmptyObject)) campsiteABC
                   [(composite_key ''ABC'' ''2025-06-01'' ''42'',
                     transform listing42 acme campsiteABC ''2025-06-01'' ''2025-06-01, 12:3'')]),
        campsites_file = Holds [campsiteABC\<lparr>lastUpdate := UpdatedAt 1748781296789\<rparr>],
        dates_file = Holds [(''week1'', ''2025-06-01'')],
        supplier_cache_file = Holds [(''42'', acme)],
        trace = [Post (createRequestBody ''2025-06-01'' campsiteABC), Get ''42'',
                 Write SUPPLIER_CACHE_FILE, Write DATA_FILE, Write CAMPSITES_FILE] \<rparr>)"
proof -
  let ?w = "fresh_install\<lparr>results_file := prior\<rparr>"
  have miss: "\<not> truthy (member (entries (loadFile (supplier_cache_file ?w) EmptyObject)) ''42'')"
    by (simp add: fresh_install_def loadFile_def fromEntries_def member_def)
  have loop: "scrapeCampsite_loop online campsiteABC [(''week1'', ''2025-06-01'')] [] ?w =
          ([(composite_key ''ABC'' ''2025-06-01'' ''42'',
             transform listing42 acme campsiteABC ''2025-06-01'' ''2025-06-01, 12:3'')],
           ?w\<lparr>supplier_cache_file := Holds [(''42'', acme)],
               trace := [Post (createRequestBody ''2025-06-01'' campsiteABC), Get ''42'',
                         Write SUPPLIER_CACHE_FILE]\<rparr>)"
    by (simp add: fetchData_online_miss[OF miss] object_assign_def)
       (simp add: fresh_install_def loadFile_def fromEntries_def)
  have dates: "entries (loadFile (dates_file ?w) EmptyObject) = [(''week1'', ''2025-06-01'')]"
    by (simp add: fresh_install_def loadFile_def fromEntries_def)
  show ?thesis
    unfolding scrapeCampsite_def dates Let_def loop
    by (simp add: fresh_install_def loadFile_def online_def noon_def)
       (simp add: saveFile_results_def saveFile_campsites_def)
qed


section \<open>Reconciliation of the result store\<close>

lemma entries_Holds_distinct:
  "distinct (map fst store) \<Longrightarrow> entries (loadFile (Holds store) d) = store"
  by (simp add: loadFile_def fromEntries_distinct)

lemma updatedResults_new_wins:
  assumes "distinct (map fst newResults)" and "map_of newResults k = Some r"
  shows "map_of (updatedResults currentResults c newResults) k = Some r"
  using assms
  by (simp add: updatedResults_def object_assign_def map_of_fold_update distinct_map_of_rev
      map_add_def)

lemma distinct_updatedResults:
  "distinct (map fst (updatedResults currentResults c newResults))"
  by (simp add: updatedResults_def object_assign_def distinct_fold_update distinct_fromEntries)

lemma campsite_transform [simp]: "campsite (transform it s c date ts) = code c"
  by (simp add: transform_def)

lemma code_campsiteXYZ [simp]: "code campsiteXYZ = ''XYZ''"
  by (simp add: campsiteXYZ_def)

lemma distinct_old_store: "distinct (map fst old_store)"
  by (simp add: old_store_def composite_key_def)

text \<open>
  C3. If \<^verbatim>\<open>fetchData\<close> returns \<^verbatim>\<open>null\<close> for every entry of the date table, then
  \<^verbatim>\<open>scrapeCampsite\<close> returns, the persisted result store is the prior store without the
  records whose \<^verbatim>\<open>campsite\<close> field is the code of the campsite (so it holds no such record
  and nothing new), and the registry file, with the \<^verbatim>\<open>lastUpdate\<close> of the campsite, is not
  written.
\<close>

theorem scrapeCampsite_total_failure:
  assumes "every_fetch_fails e c (entries (loadFile (dates_file w) EmptyObject)) w"
  shows "fst (scrapeCampsite e c w) = Returned
       \<and> results_file (snd (scrapeCampsite e c w)) =
           Holds (filter (\<lambda>(k, r). campsite r \<noteq> code c)
                    (entries (loadFile (results_file w) EmptyObject)))
       \<and> (\<forall>k r. map_of (entries (loadFile (results_file (snd (scrapeCampsite e c w))) EmptyObject)) k
                   = Some r \<longrightarrow> campsite r \<noteq> code c)
       \<and> campsites_file (snd (scrapeCampsite e c w)) = campsites_file w
       \<and> Write CAMPSITES_FILE \<notin> set (drop (length (trace w)) (trace (snd (scrapeCampsite e c w))))"
proof -
  let ?dates = "entries (loadFile (dates_file w) EmptyObject)"
  let ?cur = "entries (loadFile (results_file w) EmptyObject)"
  let ?kept = "filter (\<lambda>(k, r). campsite r \<noteq> code c) ?cur"
  obtain newResults w1 where loop: "scrapeCampsite_loop e c ?dates [] w = (newResults, w1)"
    by (cases "scrapeCampsite_loop e c ?dates [] w")
  from scrapeCampsite_loop_every_fetch_fails[OF assms, of "[]"] loop have nr: "newResults = []"
    by simp
  from scrapeCampsite_loop_extends[of w e c ?dates "[]"] loop have ext: "extends w w1" by simp
  have kept_distinct: "distinct (map fst ?kept)"
    by (rule distinct_filter_entries) (rule distinct_entries)
  then have upd: "updatedResults ?cur c [] = ?kept"
    by (simp add: updatedResults_def object_assign_def fromEntries_distinct)
  from scrapeCampsite_after_loop(3)[OF loop nr] upd
  have run: "scrapeCampsite e c w = (Returned, saveFile_results ?kept w1)" by simp
  from ext obtain evs where evs: "trace w1 = trace w @ evs" "Write CAMPSITES_FILE \<notin> set evs"
    and cf: "campsites_file w1 = campsites_file w"
    by (auto simp: extends_def)
  have a: "fst (scrapeCampsite e c w) = Returned" using run by simp
  have b: "results_file (snd (scrapeCampsite e c w)) = Holds ?kept"
    using run by (simp add: saveFile_results_def)
  have c: "\<forall>k r. map_of (entries (loadFile (results_file (snd (scrapeCampsite e c w))) EmptyObject)) k
                   = Some r \<longrightarrow> campsite r \<noteq> code c"
  proof (intro allI impI)
    fix k r
    assume "map_of (entries (loadFile (results_file (snd (scrapeCampsite e c w))) EmptyObject)) k = Some r"
    then have "map_of ?kept k = Some r"
      unfolding b using kept_distinct by (simp add: entries_Holds_distinct)
    then have "(k, r) \<in> set ?kept" by (rule map_of_SomeD)
    then show "campsite r \<noteq> code c" by simp
  qed
  have d: "campsites_file (snd (scrapeCampsite e c w)) = campsites_file w"
    using run cf by (simp add: saveFile_results_def)
  have e: "Write CAMPSITES_FILE \<notin> set (drop (length (trace w)) (trace (snd (scrapeCampsite e c w))))"
    using run evs by (simp add: saveFile_results_def)
  from a b c d e show ?thesis by blast
qed

theorem scrapeCampsite_total_failure_witness:
  "results_file (snd (scrapeCampsite offline campsiteABC (fresh_install\<lparr>results_file := Holds old_store\<rparr>)))
     = Holds [(composite_key ''XYZ'' ''2025-06-01'' ''42'',
               transform listing42 acme campsiteXYZ ''2025-06-01'' ''2025-05-30, 08:1'')]
   \<and> campsites_file (snd (scrapeCampsite offline campsiteABC (fresh_install\<lparr>results_file := Holds old_store\<rparr>)))
     = Holds [campsiteABC]"
proof -
  let ?w = "fresh_install\<lparr>results_file := Holds old_store\<rparr>"
  have h: "every_fetch_fails offline campsiteABC (entries (loadFile (dates_file ?w) EmptyObject)) ?w"
    by (simp add: fresh_install_def loadFile_def fromEntries_def fetchData_def offline_def)
  have "entries (loadFile (results_file ?w) EmptyObject) = old_store"
    by (simp add: entries_Holds_distinct distinct_old_store)
  with scrapeCampsite_total_failure[OF h] show ?thesis
    by (simp add: old_store_def) (simp add: fresh_install_def)
qed






section \<open>The fetch step: all or nothing\<close>

lemma fetchSupplierData_loop_search_api:
  "fetchSupplierData_loop (e\<lparr>search_api := f\<rparr>) itemId supplierCache attempt w
     = fetchSupplierData_loop e itemId supplierCache attempt w"
proof (induction e itemId supplierCache attempt w rule: fetchSupplierData_loop.induct)
  case (1 e itemId supplierCache attempt w)
  show ?case
  proof (cases "attempt < maxRetries")
    case False
    then show ?thesis by (simp add: fetchSupplierData_loop_done)
  next
    case lt: True
    show ?thesis
    proof (cases "card_api e (length (trace w)) itemId")
      case (Some data)
      with lt show ?thesis by (simp add: fetchSupplierData_loop_unfold)
    next
      case None
      show ?thesis
      proof (cases "attempt + 1 \<ge> maxRetries")
        case True
        with lt None show ?thesis by (simp add: fetchSupplierData_loop_unfold)
      next
        case False
        with lt None "1.IH"[OF lt refl None False] show ?thesis
          by (simp add: fetchSupplierData_loop_unfold)
      qed
    qed
  qed
qed

lemma fetchSupplierData_search_api:
  "fetchSupplierData (e\<lparr>search_api := f\<rparr>) itemId w = fetchSupplierData e itemId w"
  by (simp add: fetchSupplierData_def Let_def fetchSupplierData_loop_search_api)

lemma fetchData_loop_search_api:
  "fetchData_loop (e\<lparr>search_api := f\<rparr>) c date ts items acc w
     = fetchData_loop e c date ts items acc w"
proof (induction e c date ts items acc w rule: fetchData_loop.induct)
  case (1 e c date ts transformedData w)
  then show ?case by simp
next
  case (2 e c date ts rest transformedData w)
  then show ?case by simp
next
  case (3 e c date ts it rest transformedData w)
  obtain suppl w' where f: "fetchSupplierData e (item_id it) w = (suppl, w')"
    by (cases "fetchSupplierData e (item_id it) w")
  from "3.IH"[OF f[symmetric]] f show ?case
    by (simp add: fetchSupplierData_search_api)
qed

text \<open>When \<^verbatim>\<open>fetchData\<close> returns \<^verbatim>\<open>null\<close>.\<close>

lemma fetchData_None_iff:
  "fst (fetchData e body c date w) = None \<longleftrightarrow>
     (case search_api e (length (trace w)) body of
        Rejected \<Rightarrow> True
      | NoData \<Rightarrow> True
      | Payload a b \<Rightarrow>
          (case spread_or_empty a of
             None \<Rightarrow> True
           | Some xs \<Rightarrow>
               (case spread_or_empty b of
                  None \<Rightarrow> True
                | Some ys \<Rightarrow> None \<in> set (xs @ ys))))"
proof (cases "search_api e (length (trace w)) body")
  case Rejected
  then show ?thesis by (simp add: fetchData_def)
next
  case NoData
  then show ?thesis by (simp add: fetchData_def)
next
  case (Payload a b)
  show ?thesis
  proof (cases "spread_or_empty a")
    case None
    with Payload show ?thesis by (simp add: fetchData_def)
  next
    case xs: (Some xs)
    show ?thesis
    proof (cases "spread_or_empty b")
      case None
      with Payload xs show ?thesis by (simp add: fetchData_def)
    next
      case ys: (Some ys)
      show ?thesis
      proof (cases "None \<in> set (xs @ ys)")
        case True
        from fetchData_loop_None[OF True] Payload xs ys True show ?thesis
          by (simp add: fetchData_def Let_def)
      next
        case False
        from fetchData_loop_Some[OF False] Payload xs ys False show ?thesis
          by (simp add: fetchData_def Let_def)
      qed
    qed
  qed
qed

text \<open>The loop over a list in two parts.\<close>

lemma fetchData_loop_append:
  "fetchData_loop e c date ts (xs @ ys) acc w =
     (case fetchData_loop e c date ts xs acc w of
        (Some acc', w') \<Rightarrow> fetchData_loop e c date ts ys acc' w'
      | (None, w') \<Rightarrow> (None, w'))"
proof (induction e c date ts xs acc w rule: fetchData_loop.induct)
  case (1 e c date ts transformedData w)
  then show ?case by simp
next
  case (2 e c date ts rest transformedData w)
  then show ?case by simp
next
  case (3 e c date ts it rest transformedData w)
  obtain suppl w' where f: "fetchSupplierData e (item_id it) w = (suppl, w')"
    by (cases "fetchSupplierData e (item_id it) w")
  from "3.IH"[OF f[symmetric]] f show ?case by simp
qed

text \<open>A key that no listing of the list has keeps its entry.\<close>

lemma fetchData_loop_other_key:
  "fst (fetchData_loop e c date ts items acc w) = Some m \<Longrightarrow>
   (\<forall>it. Some it \<in> set items \<longrightarrow> composite_key (code c) date (item_id it) \<noteq> k) \<Longrightarrow>
   map_of m k = map_of acc k"
proof (induction e c date ts items acc w rule: fetchData_loop.induct)
  case (1 e c date ts transformedData w)
  then show ?case by simp
next
  case (2 e c date ts rest transformedData w)
  then show ?case by simp
next
  case (3 e c date ts it rest transformedData w)
  obtain suppl w' where f: "fetchSupplierData e (item_id it) w = (suppl, w')"
    by (cases "fetchSupplierData e (item_id it) w")
  let ?acc = "AList.update (composite_key (code c) date (item_id it))
               (transform it suppl c date ts) transformedData"
  from "3.prems"(1) f have "fst (fetchData_loop e c date ts rest ?acc w') = Some m" by simp
  moreover from "3.prems"(2)
  have "\<forall>it. Some it \<in> set rest \<longrightarrow> composite_key (code c) date (item_id it) \<noteq> k" by simp
  ultimately have "map_of m k = map_of ?acc k" by (rule "3.IH"[OF f[symmetric]])
  moreover from "3.prems"(2) have "composite_key (code c) date (item_id it) \<noteq> k" by simp
  ultimately show ?case by (simp add: AList.update_conv')
qed

lemma composite_key_same_date:
  "composite_key cc d i1 = composite_key cc d i2 \<longleftrightarrow> i1 = i2"
  by (simp add: composite_key_def)

text \<open>
  The record of a listing that no later listing of the answer repeats: the fields of the
  listing, the supplier resolved in the world that the earlier listings left, and the
  constant fields.
\<close>

lemma fetchData_loop_record:
  assumes m: "fst (fetchData_loop e c date ts (pre @ Some it # post) [] w) = Some m"
    and last: "\<forall>it'. Some it' \<in> set post \<longrightarrow> item_id it' \<noteq> item_id it"
  shows "map_of m (composite_key (code c) date (item_id it)) =
           Some (transform it
                   (fst (fetchSupplierData e (item_id it)
                           (snd (fetchData_loop e c date ts pre [] w))))
                   c date ts)"
proof -
  let ?k = "composite_key (code c) date (item_id it)"
  obtain r0 w0 where p: "fetchData_loop e c date ts pre [] w = (r0, w0)"
    by (cases "fetchData_loop e c date ts pre [] w")
  from m p obtain acc0 where r0: "r0 = Some acc0"
    by (cases r0) (simp_all add: fetchData_loop_append)
  obtain suppl w' where f: "fetchSupplierData e (item_id it) w0 = (suppl, w')"
    by (cases "fetchSupplierData e (item_id it) w0")
  let ?acc = "AList.update ?k (transform it suppl c date ts) acc0"
  from m p r0 f have rest: "fst (fetchData_loop e c date ts post ?acc w') = Some m"
    by (simp add: fetchData_loop_append)
  from last have "\<forall>it'. Some it' \<in> set post \<longrightarrow> composite_key (code c) date (item_id it') \<noteq> ?k"
    by (simp add: composite_key_same_date)
  from fetchData_loop_other_key[OF rest this]
  have "map_of m ?k = Some (transform it suppl c date ts)"
    by (simp add: AList.update_conv')
  with p f show ?thesis by simp
qed

text \<open>
  C6. If the answer can be spread and has no \<^verbatim>\<open>null\<close> element, \<^verbatim>\<open>fetchData\<close> returns a
  mapping whose keys are the strings \<^verbatim>\<open>${C.code}_from_ALLCAMPS_at_${date}_#${item.id}\<close> of
  the primary listings followed by the alternatives, both treated alike. Under the key of
  a listing that no later listing repeats is the record with the thirteen fields of the
  listing, the supplier that \<^verbatim>\<open>fetchSupplierData(item.id)\<close> gives after the listings
  before it, the campsite code, the requested date, the website \<^verbatim>\<open>ALLCAMPS\<close> and the
  timestamp read once before the loop. The result is the same as if all listings had been
  primary. In every other case (the request fails, the answer has no \<^verbatim>\<open>data\<close>, a list
  cannot be spread, an element is \<^verbatim>\<open>null\<close>) it returns \<^verbatim>\<open>null\<close> and no mapping at all. When
  it returns \<^verbatim>\<open>null\<close>, the loop of \<^verbatim>\<open>scrapeCampsite\<close> goes on with the remaining dates and
  the new results unchanged.
\<close>

theorem fetchData_all_or_nothing:
  "(\<forall>a b xs ys.
       search_api e (length (trace w)) body = Payload a b
       \<and> spread_or_empty a = Some xs \<and> spread_or_empty b = Some ys \<and> None \<notin> set (xs @ ys)
     \<longrightarrow> (\<exists>m. fst (fetchData e body c date w) = Some m
            \<and> fst ` set m =
                {code c @ ''_from_ALLCAMPS_at_'' @ date @ ''_#'' @ item_id it |it.
                   Some it \<in> set (xs @ ys)}
            \<and> (\<forall>pre it post.
                  xs @ ys = pre @ Some it # post
                  \<and> (\<forall>it'. Some it' \<in> set post \<longrightarrow> item_id it' \<noteq> item_id it)
                \<longrightarrow> map_of m (code c @ ''_from_ALLCAMPS_at_'' @ date @ ''_#'' @ item_id it) =
                      Some \<lparr> rec_id = item_id it,
                             rec_name = item_name it,
                             rec_category = item_category it,
                             rec_categorySlug = item_categorySlug it,
                             rec_maxPersons = item_maxPersons it,
                             rec_bedrooms = item_bedrooms it,
                             rec_aircondition = item_aircondition it,
                             rec_dogAllowed = item_dogAllowed it,
                             rec_priceBeforeFeesBeforeDiscount =
                               item_priceBeforeFeesBeforeDiscount it,
                             rec_priceBeforeFeesAfterDiscount =
                               item_priceBeforeFeesAfterDiscount it,
                             rec_size = item_size it,
                             rec_arrivalDate = item_arrivalDate it,
                             rec_duration = item_duration it,
                             supplier =
                               fst (fetchSupplierData e (item_id it)
                                      (snd (fetchData_loop e c date
                                              (ingestion_timestamp
                                                 (clock e (Suc (length (trace w)))))
                                              pre []
                                              (w\<lparr>trace := trace w @ [Post body]\<rparr>)))),
                             campsite = code c,
                             requestedDate = date,
                             website = ''ALLCAMPS'',
                             timestamp =
                               ingestion_timestamp (clock e (Suc (length (trace w)))) \<rparr>))
         \<and> fetchData e body c date w =
             fetchData (e\<lparr>search_api := \<lambda>n b. Payload (Array (xs @ ys)) Falsy\<rparr>) body c date w)
   \<and> (fst (fetchData e body c date w) = None \<longleftrightarrow>
        (case search_api e (length (trace w)) body of
           Rejected \<Rightarrow> True
         | NoData \<Rightarrow> True
         | Payload a b \<Rightarrow>
             (case spread_or_empty a of
                None \<Rightarrow> True
              | Some xs \<Rightarrow>
                  (case spread_or_empty b of
                     None \<Rightarrow> True
                   | Some ys \<Rightarrow> None \<in> set (xs @ ys)))))
   \<and> (fst (fetchData e (createRequestBody date c) c date w) = None \<longrightarrow>
        scrapeCampsite_loop e c ((dateName, date) # rest) newResults w =
        scrapeCampsite_loop e c rest newResults
          (snd (fetchData e (createRequestBody date c) c date w)))"
proof (intro conjI allI impI)
  fix a b xs ys
  assume h: "search_api e (length (trace w)) body = Payload a b
       \<and> spread_or_empty a = Some xs \<and> spread_or_empty b = Some ys \<and> None \<notin> set (xs @ ys)"
  let ?w1 = "w\<lparr>trace := trace w @ [Post body]\<rparr>"
  let ?ts = "ingestion_timestamp (clock e (Suc (length (trace w))))"
  from h have eq: "fetchData e body c date w = fetchData_loop e c date ?ts (xs @ ys) [] ?w1"
    by (simp add: fetchData_def Let_def)
  from h fetchData_loop_Some[of "xs @ ys" e c date ?ts "[]" ?w1]
  obtain m where m: "fst (fetchData_loop e c date ?ts (xs @ ys) [] ?w1) = Some m" by blast
  have keys: "fst ` set m =
                {code c @ ''_from_ALLCAMPS_at_'' @ date @ ''_#'' @ item_id it |it.
                   Some it \<in> set (xs @ ys)}"
    using fetchData_loop_keys[OF m] by (simp add: composite_key_def WEBSITE_NAME_def)
  have recs: "map_of m (code c @ ''_from_ALLCAMPS_at_'' @ date @ ''_#'' @ item_id it) =
                      Some \<lparr> rec_id = item_id it,
                             rec_name = item_name it,
                             rec_category = item_category it,
                             rec_categorySlug = item_categorySlug it,
                             rec_maxPersons = item_maxPersons it,
                             rec_bedrooms = item_bedrooms it,
                             rec_aircondition = item_aircondition it,
                             rec_dogAllowed = item_dogAllowed it,
                             rec_priceBeforeFeesBeforeDiscount =
                               item_priceBeforeFeesBeforeDiscount it,
                             rec_priceBeforeFeesAfterDiscount =
                               item_priceBeforeFeesAfterDiscount it,
                             rec_size = item_size it,
                             rec_arrivalDate = item_arrivalDate it,
                             rec_duration = item_duration it,
                             supplier =
                               fst (fetchSupplierData e (item_id it)
                                      (snd (fetchData_loop e c date ?ts pre [] ?w1))),
                             campsite = code c,
                             requestedDate = date,
                             website = ''ALLCAMPS'',
                             timestamp = ?ts \<rparr>"
    if split: "xs @ ys = pre @ Some it # post"
      and last: "\<forall>it'. Some it' \<in> set post \<longrightarrow> item_id it' \<noteq> item_id it"
    for pre it post
  proof -
    from m split have "fst (fetchData_loop e c date ?ts (pre @ Some it # post) [] ?w1) = Some m"
      by simp
    from fetchData_loop_record[OF this last] show ?thesis
      by (simp add: composite_key_def WEBSITE_NAME_def transform_def)
  qed
  from m keys recs eq
  show "\<exists>m. fst (fetchData e body c date w) = Some m
            \<and> fst ` set m =
                {code c @ ''_from_ALLCAMPS_at_'' @ date @ ''_#'' @ item_id it |it.
                   Some it \<in> set (xs @ ys)}
            \<and> (\<forall>pre it post.
                  xs @ ys = pre @ Some it # post
                  \<and> (\<forall>it'. Some it' \<in> set post \<longrightarrow> item_id it' \<noteq> item_id it)
                \<longrightarrow> map_of m (code c @ ''_from_ALLCAMPS_at_'' @ date @ ''_#'' @ item_id it) =
                      Some \<lparr> rec_id = item_id it,
                             rec_name = item_name it,
                             rec_category = item_category it,
                             rec_categorySlug = item_categorySlug it,
                             rec_maxPersons = item_maxPersons it,
                             rec_bedrooms = item_bedrooms it,
                             rec_aircondition = item_aircondition it,
                             rec_dogAllowed = item_dogAllowed it,
                             rec_priceBeforeFeesBeforeDiscount =
                               item_priceBeforeFeesBeforeDiscount it,
                             rec_priceBeforeFeesAfterDiscount =
                               item_priceBeforeFeesAfterDiscount it,
                             rec_size = item_size it,
                             rec_arrivalDate = item_arrivalDate it,
                             rec_duration = item_duration it,
                             supplier =
                               fst (fetchSupplierData e (item_id it)
                                      (snd (fetchData_loop e c date
                                              (ingestion_timestamp
                                                 (clock e (Suc (length (trace w)))))
                                              pre []
                                              (w\<lparr>trace := trace w @ [Post body]\<rparr>)))),
                             campsite = code c,
                             requestedDate = date,
                             website = ''ALLCAMPS'',
                             timestamp =
                               ingestion_timestamp (clock e (Suc (length (trace w)))) \<rparr>)"
    by (intro exI[of _ m]) (simp only: eq, blast)
  show "fetchData e body c date w =
             fetchData (e\<lparr>search_api := \<lambda>n b. Payload (Array (xs @ ys)) Falsy\<rparr>) body c date w"
    unfolding eq by (simp add: fetchData_def Let_def fetchData_loop_search_api)
next
  show "fst (fetchData e body c date w) = None \<longleftrightarrow>
        (case search_api e (length (trace w)) body of
           Rejected \<Rightarrow> True
         | NoData \<Rightarrow> True
         | Payload a b \<Rightarrow>
             (case spread_or_empty a of
                None \<Rightarrow> True
              | Some xs \<Rightarrow>
                  (case spread_or_empty b of
                     None \<Rightarrow> True
                   | Some ys \<Rightarrow> None \<in> set (xs @ ys))))"
    by (rule fetchData_None_iff)
next
  assume "fst (fetchData e (createRequestBody date c) c date w) = None"
  then show "scrapeCampsite_loop e c ((dateName, date) # rest) newResults w =
        scrapeCampsite_loop e c rest newResults
          (snd (fetchData e (createRequestBody date c) c date w))"
    by (cases "fetchData e (createRequestBody date c) c date w") simp
qed

lemma item_id_listing7 [simp]: "item_id listing7 = ''7''"
  by (simp add: listing7_def)

lemma fetchSupplierData_online_both:
  "fetchSupplierData online_both itemId w = fetchSupplierData online itemId w"
  by (simp add: online_both_def fetchSupplierData_search_api)

lemma fetchData_loop_online_both:
  "fetchData_loop online_both c date ts items acc w = fetchData_loop online c date ts items acc w"
  by (simp add: online_both_def fetchData_loop_search_api)

text \<open>
  One primary listing (id 42) and one alternative (id 7): two keys, two records, each with
  the supplier \<^verbatim>\<open>{name: "Acme"}\<close>; and with every request failing, \<^verbatim>\<open>null\<close> and an
  unchanged store.
\<close>

theorem fetchData_all_or_nothing_witness:
  "(\<exists>m. fst (fetchData online_both (createRequestBody ''2025-06-01'' campsiteABC) campsiteABC
              ''2025-06-01'' fresh_install) = Some m
        \<and> fst ` set m = {''ABC_from_ALLCAMPS_at_2025-06-01_#42'',
                           ''ABC_from_ALLCAMPS_at_2025-06-01_#7''}
        \<and> map_of m ''ABC_from_ALLCAMPS_at_2025-06-01_#42'' =
            Some \<lparr> rec_id = ''42'', rec_name = JStr ''Lodge'',
                   rec_category = JStr ''mobile-home'', rec_categorySlug = JStr ''mobile-home'',
                   rec_maxPersons = JNum 4, rec_bedrooms = JNum 2,
                   rec_aircondition = JBool True, rec_dogAllowed = JBool False,
                   rec_priceBeforeFeesBeforeDiscount = JNum 700,
                   rec_priceBeforeFeesAfterDiscount = JNum 630, rec_size = JNum 32,
                   rec_arrivalDate = JStr ''2025-06-01'', rec_duration = JNum 7,
                   supplier = JObj [(''name'', JStr ''Acme'')], campsite = ''ABC'',
                   requestedDate = ''2025-06-01'', website = ''ALLCAMPS'',
                   timestamp = ''2025-06-01, 12:3'' \<rparr>
        \<and> map_of m ''ABC_from_ALLCAMPS_at_2025-06-01_#7'' =
            Some \<lparr> rec_id = ''7'', rec_name = JStr ''Tent'',
                   rec_category = JStr ''mobile-home'', rec_categorySlug = JStr ''mobile-home'',
                   rec_maxPersons = JNum 4, rec_bedrooms = JNum 2,
                   rec_aircondition = JBool True, rec_dogAllowed = JBool False,
                   rec_priceBeforeFeesBeforeDiscount = JNum 700,
                   rec_priceBeforeFeesAfterDiscount = JNum 630, rec_size = JNum 32,
                   rec_arrivalDate = JStr ''2025-06-01'', rec_duration = JNum 7,
                   supplier = JObj [(''name'', JStr ''Acme'')], campsite = ''ABC'',
                   requestedDate = ''2025-06-01'', website = ''ALLCAMPS'',
                   timestamp = ''2025-06-01, 12:3'' \<rparr>)
   \<and> fst (fetchData offline (createRequestBody ''2025-06-01'' campsiteABC) campsiteABC
            ''2025-06-01'' fresh_install) = None
   \<and> scrapeCampsite_loop offline campsiteABC [(''week1'', ''2025-06-01'')] old_store fresh_install
       = (old_store,
          fresh_install\<lparr>trace := [Post (createRequestBody ''2025-06-01'' campsiteABC)]\<rparr>)"
proof -
  let ?body = "createRequestBody ''2025-06-01'' campsiteABC"
  let ?w1 = "fresh_install\<lparr>trace := trace fresh_install @ [Post ?body]\<rparr>"
  let ?ts = "ingestion_timestamp (clock online_both (Suc (length (trace fresh_install))))"
  have on: "search_api online_both (length (trace fresh_install)) ?body
              = Payload (Array [Some listing42]) (Array [Some listing7])
       \<and> spread_or_empty (Array [Some listing42]) = Some [Some listing42]
       \<and> spread_or_empty (Array [Some listing7]) = Some [Some listing7]
       \<and> None \<notin> set ([Some listing42] @ [Some listing7])"
    by (simp add: online_both_def online_def)
  have ts: "?ts = ''2025-06-01, 12:3''"
    by (simp add: online_both_def online_def ingestion_timestamp_noon)
  have miss42: "\<not> truthy (member (entries (loadFile (supplier_cache_file ?w1) EmptyObject)) ''42'')"
    by (simp add: fresh_install_def loadFile_def fromEntries_def member_def)
  have sup42: "fst (fetchSupplierData online_both ''42''
                      (snd (fetchData_loop online_both campsiteABC ''2025-06-01'' ?ts [] [] ?w1)))
                 = acme"
    by (simp add: fetchSupplierData_online_both fetchSupplierData_online_miss[OF miss42])
  have sup7: "fst (fetchSupplierData online_both ''7''
                     (snd (fetchData_loop online_both campsiteABC ''2025-06-01'' ?ts
                             [Some listing42] [] ?w1)))
                 = acme"
  proof -
    have w2: "snd (fetchData_loop online_both campsiteABC ''2025-06-01'' ?ts [Some listing42] [] ?w1)
              = ?w1\<lparr>supplier_cache_file := Holds [(''42'', acme)],
                      trace := trace ?w1 @ [Get ''42'', Write SUPPLIER_CACHE_FILE]\<rparr>"
      by (simp add: fetchSupplierData_online_both fetchSupplierData_online_miss[OF miss42])
         (simp add: fresh_install_def loadFile_def fromEntries_def)
    have "\<not> truthy (member (entries (loadFile (supplier_cache_file
               (?w1\<lparr>supplier_cache_file := Holds [(''42'', acme)],
                      trace := trace ?w1 @ [Get ''42'', Write SUPPLIER_CACHE_FILE]\<rparr>))
               EmptyObject)) ''7'')"
      by (simp add: loadFile_def fromEntries_def member_def)
    from fetchSupplierData_online_miss[OF this] show ?thesis
      unfolding w2 by (simp add: fetchSupplierData_online_both)
  qed
  have off: "fst (fetchData offline ?body campsiteABC ''2025-06-01'' fresh_install) = None"
    by (simp add: fetchData_def offline_def)
  have snd_off: "snd (fetchData offline ?body campsiteABC ''2025-06-01'' fresh_install)
                   = fresh_install\<lparr>trace := [Post ?body]\<rparr>"
    by (simp add: fetchData_def offline_def fresh_install_def)
  from fetchData_all_or_nothing[of online_both fresh_install ?body campsiteABC "''2025-06-01''"]
    on
  obtain m where m: "fst (fetchData online_both ?body campsiteABC ''2025-06-01'' fresh_install) = Some m"
    and keys: "fst ` set m =
                {code campsiteABC @ ''_from_ALLCAMPS_at_'' @ ''2025-06-01'' @ ''_#'' @ item_id it |it.
                   Some it \<in> set ([Some listing42] @ [Some listing7])}"
    and recs: "\<And>pre it post.
                  [Some listing42] @ [Some listing7] = pre @ Some it # post
                  \<and> (\<forall>it'. Some it' \<in> set post \<longrightarrow> item_id it' \<noteq> item_id it)
                \<Longrightarrow> map_of m (code campsiteABC @ ''_from_ALLCAMPS_at_'' @ ''2025-06-01'' @ ''_#'' @ item_id it) =
                      Some \<lparr> rec_id = item_id it,
                             rec_name = item_name it,
                             rec_category = item_category it,
                             rec_categorySlug = item_categorySlug it,
                             rec_maxPersons = item_maxPersons it,
                             rec_bedrooms = item_bedrooms it,
                             rec_aircondition = item_aircondition it,
                             rec_dogAllowed = item_dogAllowed it,
                             rec_priceBeforeFeesBeforeDiscount =
                               item_priceBeforeFeesBeforeDiscount it,
                             rec_priceBeforeFeesAfterDiscount =
                               item_priceBeforeFeesAfterDiscount it,
                             rec_size = item_size it,
                             rec_arrivalDate = item_arrivalDate it,
                             rec_duration = item_duration it,
                             supplier =
                               fst (fetchSupplierData online_both (item_id it)
                                      (snd (fetchData_loop online_both campsiteABC ''2025-06-01''
                                              ?ts pre [] ?w1))),
                             campsite = code campsiteABC,
                             requestedDate = ''2025-06-01'',
                             website = ''ALLCAMPS'',
                             timestamp = ?ts \<rparr>"
    by blast
  have k: "fst ` set m = {''ABC_from_ALLCAMPS_at_2025-06-01_#42'',
                           ''ABC_from_ALLCAMPS_at_2025-06-01_#7''}"
  proof -
    have "{code campsiteABC @ ''_from_ALLCAMPS_at_'' @ ''2025-06-01'' @ ''_#'' @ item_id it |it.
             Some it \<in> set ([Some listing42] @ [Some listing7])}
          = (\<lambda>it. code campsiteABC @ ''_from_ALLCAMPS_at_'' @ ''2025-06-01'' @ ''_#'' @ item_id it)
              ` {listing42, listing7}"
      by auto (metis item_id_listing42, metis item_id_listing7)
    then show ?thesis unfolding keys by simp
  qed
  have r42: "map_of m ''ABC_from_ALLCAMPS_at_2025-06-01_#42'' =
            Some \<lparr> rec_id = ''42'', rec_name = JStr ''Lodge'',
                   rec_category = JStr ''mobile-home'', rec_categorySlug = JStr ''mobile-home'',
                   rec_maxPersons = JNum 4, rec_bedrooms = JNum 2,
                   rec_aircondition = JBool True, rec_dogAllowed = JBool False,
                   rec_priceBeforeFeesBeforeDiscount = JNum 700,
                   rec_priceBeforeFeesAfterDiscount = JNum 630, rec_size = JNum 32,
                   rec_arrivalDate = JStr ''2025-06-01'', rec_duration = JNum 7,
                   supplier = JObj [(''name'', JStr ''Acme'')], campsite = ''ABC'',
                   requestedDate = ''2025-06-01'', website = ''ALLCAMPS'',
                   timestamp = ''2025-06-01, 12:3'' \<rparr>"
  proof -
    have p: "[Some listing42] @ [Some listing7] = [] @ Some listing42 # [Some listing7]
             \<and> (\<forall>it'. Some it' \<in> set [Some listing7] \<longrightarrow> item_id it' \<noteq> item_id listing42)"
      by simp
    from recs[OF p, unfolded item_id_listing42 sup42] show ?thesis
      by (simp add: ts listing42_def acme_def)
  qed
  have r7: "map_of m ''ABC_from_ALLCAMPS_at_2025-06-01_#7'' =
            Some \<lparr> rec_id = ''7'', rec_name = JStr ''Tent'',
                   rec_category = JStr ''mobile-home'', rec_categorySlug = JStr ''mobile-home'',
                   rec_maxPersons = JNum 4, rec_bedrooms = JNum 2,
                   rec_aircondition = JBool True, rec_dogAllowed = JBool False,
                   rec_priceBeforeFeesBeforeDiscount = JNum 700,
                   rec_priceBeforeFeesAfterDiscount = JNum 630, rec_size = JNum 32,
                   rec_arrivalDate = JStr ''2025-06-01'', rec_duration = JNum 7,
                   supplier = JObj [(''name'', JStr ''Acme'')], campsite = ''ABC'',
                   requestedDate = ''2025-06-01'', website = ''ALLCAMPS'',
                   timestamp = ''2025-06-01, 12:3'' \<rparr>"
  proof -
    have p: "[Some listing42] @ [Some listing7] = [Some listing42] @ Some listing7 # []
             \<and> (\<forall>it'. Some it' \<in> set [] \<longrightarrow> item_id it' \<noteq> item_id listing7)"
      by simp
    from recs[OF p, unfolded item_id_listing7 sup7] show ?thesis
      by (simp add: ts listing7_def listing42_def acme_def)
  qed
  from fetchData_all_or_nothing[of offline fresh_install ?body campsiteABC "''2025-06-01''"
      "''week1''" "[]" old_store] off snd_off
  have skip: "scrapeCampsite_loop offline campsiteABC [(''week1'', ''2025-06-01'')] old_store fresh_install
       = (old_store, fresh_install\<lparr>trace := [Post ?body]\<rparr>)"
    by simp
  from m k r42 r7 off skip show ?thesis by blast
qed

text \<open>
  C10. Every record in the mapping that a successful \<^verbatim>\<open>fetchData(body, C, d)\<close> returns has
  the \<^verbatim>\<open>campsite\<close> field \<^verbatim>\<open>C.code\<close>, the \<^verbatim>\<open>website\<close> field \<^verbatim>\<open>ALLCAMPS\<close> and the
  \<^verbatim>\<open>requestedDate\<close> field \<open>d\<close>.
\<close>

theorem fetchData_records_belong_to_campsite:
  "fst (fetchData e body c date w) = Some m \<longrightarrow>
     (\<forall>(k, r) \<in> set m.
        campsite r = code c \<and> website r = ''ALLCAMPS'' \<and> requestedDate r = date)"
proof (intro impI ballI)
  fix x assume m: "fst (fetchData e body c date w) = Some m" and x: "x \<in> set m"
  obtain k r where kr: "x = (k, r)" by (cases x)
  from fetchData_records[OF m] x kr obtain it s ts where "r = transform it s c date ts" by blast
  then show "case x of (k, r) \<Rightarrow>
        campsite r = code c \<and> website r = ''ALLCAMPS'' \<and> requestedDate r = date"
    by (simp add: kr transform_def WEBSITE_NAME_def)
qed

theorem fetchData_records_belong_to_campsite_witness:
  "fst (fetchData online (createRequestBody ''2025-06-01'' campsiteABC) campsiteABC
          ''2025-06-01'' fresh_install)
     = Some [(composite_key ''ABC'' ''2025-06-01'' ''42'',
              transform listing42 acme campsiteABC ''2025-06-01'' ''2025-06-01, 12:3'')]
   \<and> campsite (transform listing42 acme campsiteABC ''2025-06-01'' ''2025-06-01, 12:3'') = ''ABC''
   \<and> website (transform listing42 acme campsiteABC ''2025-06-01'' ''2025-06-01, 12:3'') = ''ALLCAMPS''
   \<and> requestedDate (transform listing42 acme campsiteABC ''2025-06-01'' ''2025-06-01, 12:3'')
       = ''2025-06-01''"
proof -
  have miss: "\<not> truthy (member (entries (loadFile (supplier_cache_file fresh_install) EmptyObject)) ''42'')"
    by (simp add: fresh_install_def loadFile_def fromEntries_def member_def)
  have run: "fst (fetchData online (createRequestBody ''2025-06-01'' campsiteABC) campsiteABC
          ''2025-06-01'' fresh_install)
     = Some [(composite_key ''ABC'' ''2025-06-01'' ''42'',
              transform listing42 acme campsiteABC ''2025-06-01'' ''2025-06-01, 12:3'')]"
    by (simp add: fetchData_online_miss[OF miss])
  from fetchData_records_belong_to_campsite[of online "createRequestBody ''2025-06-01'' campsiteABC"
      campsiteABC "''2025-06-01''" fresh_install] run
  show ?thesis by (simp add: transform_def WEBSITE_NAME_def)
qed

section \<open>Composite keys\<close>

lemma composite_key_same_campsite:
  "composite_key cc d1 i1 = composite_key cc d2 i2 \<longleftrightarrow> d1 @ ''_#'' @ i1 = d2 @ ''_#'' @ i2"
  by (simp add: composite_key_def)

lemma composite_key_dates_differ:
  "d1 \<noteq> d2 \<Longrightarrow> composite_key cc d1 i \<noteq> composite_key cc d2 i"
  by (simp add: composite_key_def)

lemma composite_key_inj:
  assumes "CHR ''#'' \<notin> set d1" and "CHR ''#'' \<notin> set d2"
    and "composite_key cc d1 i1 = composite_key cc d2 i2"
  shows "d1 = d2 \<and> i1 = i2"
proof -
  from assms(3) have "(d1 @ ''_'') @ CHR ''#'' # i1 = (d2 @ ''_'') @ CHR ''#'' # i2"
    by (simp add: composite_key_same_campsite)
  moreover have "CHR ''#'' \<notin> set (d1 @ ''_'')" "CHR ''#'' \<notin> set (d2 @ ''_'')"
    using assms(1,2) by simp_all
  ultimately have "d1 @ ''_'' = d2 @ ''_'' \<and> i1 = i2"
    by (intro split_at_first_occurrence[of "CHR ''#''"])
  then show ?thesis by simp
qed

lemma always_lists_fetchData:
  assumes "always_lists e c date itemId"
  shows "\<exists>m. fst (fetchData e (createRequestBody date c) c date w) = Some m
           \<and> composite_key (code c) date itemId \<in> fst ` set m"
proof -
  let ?body = "createRequestBody date c"
  from assms obtain a b xs ys it where
    h: "search_api e (length (trace w)) ?body = Payload a b"
       "spread_or_empty a = Some xs" "spread_or_empty b = Some ys"
       "None \<notin> set (xs @ ys)" "Some it \<in> set (xs @ ys)" "item_id it = itemId"
    unfolding always_lists_def by blast
  let ?w1 = "w\<lparr>trace := trace w @ [Post ?body]\<rparr>"
  let ?ts = "ingestion_timestamp (clock e (length (trace ?w1)))"
  from h have eq: "fetchData e ?body c date w = fetchData_loop e c date ?ts (xs @ ys) [] ?w1"
    by (simp add: fetchData_def Let_def)
  from fetchData_loop_Some[OF h(4), of e c date ?ts "[]" ?w1]
  obtain m where m: "fst (fetchData_loop e c date ?ts (xs @ ys) [] ?w1) = Some m" by blast
  from fetchData_loop_keys[OF m] h(5,6)
  have "composite_key (code c) date itemId \<in> fst ` set m" by auto
  with m eq show ?thesis by simp
qed

lemma scrapeCampsite_loop_keys_grow:
  "fst ` set newResults \<subseteq> fst ` set (fst (scrapeCampsite_loop e c dates newResults w))"
proof (induction e c dates newResults w rule: scrapeCampsite_loop.induct)
  case (1 e c newResults w)
  then show ?case by simp
next
  case (2 e c dateName date rest newResults w)
  obtain data w' where f: "fetchData e (createRequestBody date c) c date w = (data, w')"
    by (cases "fetchData e (createRequestBody date c) c date w")
  show ?case
  proof (cases data)
    case None
    with "2.IH"(1)[OF f[symmetric] None] f show ?thesis by simp
  next
    case (Some d)
    have "fst ` set newResults \<subseteq> fst ` set (object_assign newResults d)"
      by (simp add: object_assign_def keys_fold_update)
    with "2.IH"(2)[OF f[symmetric] Some] f Some show ?thesis by auto
  qed
qed

lemma scrapeCampsite_loop_key_present:
  "(dateName, date) \<in> set dates \<Longrightarrow> always_lists e c date itemId \<Longrightarrow>
   composite_key (code c) date itemId
     \<in> fst ` set (fst (scrapeCampsite_loop e c dates newResults w))"
proof (induction e c dates newResults w rule: scrapeCampsite_loop.induct)
  case (1 e c newResults w)
  then show ?case by simp
next
  case (2 e c dateName' date' rest newResults w)
  obtain data w' where f: "fetchData e (createRequestBody date' c) c date' w = (data, w')"
    by (cases "fetchData e (createRequestBody date' c) c date' w")
  show ?case
  proof (cases "(dateName, date) \<in> set rest")
    case True
    show ?thesis
    proof (cases data)
      case None
      with "2.IH"(1)[OF f[symmetric] None True "2.prems"(2)] f show ?thesis by simp
    next
      case (Some d)
      with "2.IH"(2)[OF f[symmetric] Some True "2.prems"(2)] f show ?thesis by simp
    qed
  next
    case False
    with "2.prems"(1) have here: "date' = date" by simp
    from always_lists_fetchData[OF "2.prems"(2), of w]
    obtain m where "fst (fetchData e (createRequestBody date c) c date w) = Some m"
      and key: "composite_key (code c) date itemId \<in> fst ` set m"
      by blast
    with f here have m: "data = Some m" by simp
    from key have "composite_key (code c) date itemId \<in> fst ` set (object_assign newResults m)"
      by (simp add: object_assign_def keys_fold_update)
    with scrapeCampsite_loop_keys_grow[of "object_assign newResults m" e c rest w'] f m here
    show ?thesis by auto
  qed
qed


text \<open>
  C7. Every record that \<^verbatim>\<open>fetchData\<close> returns is stored under the key
  \<^verbatim>\<open><campsite>_from_<website>_at_<requestedDate>_#<id>\<close> of its own fields. For one campsite
  and one item id, the keys of two different dates differ, so merging the record of the
  second date into new results that hold the record of the first leaves both in the
  reconciled store. End to end: if the date table holds both dates, no date of the table
  contains the character \<^verbatim>\<open>#\<close>, and the search of either date lists the item, then after
  \<^verbatim>\<open>scrapeCampsite\<close> the persisted store holds under each of the two keys a record of that
  date and that item.
\<close>

theorem composite_key_separates_dates:
  fixes e :: env and c :: campsite and w :: world and i d1 d2 :: string
  defines "dates \<equiv> entries (loadFile (dates_file w) EmptyObject)"
    and "store' \<equiv> entries (loadFile (results_file (snd (scrapeCampsite e c w))) EmptyObject)"
    and "k1 \<equiv> composite_key (code c) d1 i"
    and "k2 \<equiv> composite_key (code c) d2 i"
  shows "(\<forall>body date w0 m. fst (fetchData e body c date w0) = Some m \<longrightarrow>
            (\<forall>(k, r) \<in> set m.
               k = campsite r @ ''_from_'' @ website r @ ''_at_'' @ requestedDate r @ ''_#'' @ rec_id r))
       \<and> (d1 \<noteq> d2 \<longrightarrow> k1 \<noteq> k2)
       \<and> (d1 \<noteq> d2 \<and> distinct (map fst acc) \<longrightarrow>
            map_of (updatedResults cur c (object_assign (object_assign acc [(k1, r1)]) [(k2, r2)])) k1
              = Some r1
            \<and> map_of (updatedResults cur c (object_assign (object_assign acc [(k1, r1)]) [(k2, r2)])) k2
              = Some r2)
       \<and> (d1 \<noteq> d2 \<and> d1 \<in> snd ` set dates \<and> d2 \<in> snd ` set dates
            \<and> (\<forall>d \<in> snd ` set dates. CHR ''#'' \<notin> set d)
            \<and> always_lists e c d1 i \<and> always_lists e c d2 i \<longrightarrow>
            (\<exists>r1 r2. map_of store' k1 = Some r1 \<and> requestedDate r1 = d1 \<and> rec_id r1 = i
                   \<and> map_of store' k2 = Some r2 \<and> requestedDate r2 = d2 \<and> rec_id r2 = i))"
proof (intro conjI)
  show "\<forall>body date w0 m. fst (fetchData e body c date w0) = Some m \<longrightarrow>
            (\<forall>(k, r) \<in> set m.
               k = campsite r @ ''_from_'' @ website r @ ''_at_'' @ requestedDate r @ ''_#'' @ rec_id r)"
  proof (intro allI impI ballI)
    fix body date w0 m x
    assume m: "fst (fetchData e body c date w0) = Some m" and x: "x \<in> set m"
    obtain k r where kr: "x = (k, r)" by (cases x)
    from fetchData_records[OF m x[unfolded kr]] obtain it s ts where
      "k = composite_key (code c) date (item_id it)" "r = transform it s c date ts" by blast
    then show "case x of (k, r) \<Rightarrow>
               k = campsite r @ ''_from_'' @ website r @ ''_at_'' @ requestedDate r @ ''_#'' @ rec_id r"
      by (simp add: kr composite_key_def transform_def)
  qed
next
  show "d1 \<noteq> d2 \<longrightarrow> k1 \<noteq> k2"
    by (simp add: k1_def k2_def composite_key_dates_differ)
next
  show "d1 \<noteq> d2 \<and> distinct (map fst acc) \<longrightarrow>
            map_of (updatedResults cur c (object_assign (object_assign acc [(k1, r1)]) [(k2, r2)])) k1
              = Some r1
            \<and> map_of (updatedResults cur c (object_assign (object_assign acc [(k1, r1)]) [(k2, r2)])) k2
              = Some r2"
  proof (intro impI)
    assume h: "d1 \<noteq> d2 \<and> distinct (map fst acc)"
    then have ne: "k1 \<noteq> k2" by (simp add: k1_def k2_def composite_key_dates_differ)
    let ?nr = "object_assign (object_assign acc [(k1, r1)]) [(k2, r2)]"
    have nr: "?nr = AList.update k2 r2 (AList.update k1 r1 acc)"
      by (simp add: object_assign_def)
    from h have dist: "distinct (map fst ?nr)"
      unfolding nr by (simp add: AList.distinct_update)
    have "map_of ?nr k1 = Some r1" "map_of ?nr k2 = Some r2"
      using ne unfolding nr by (simp_all add: AList.update_conv')
    then show "map_of (updatedResults cur c ?nr) k1 = Some r1
            \<and> map_of (updatedResults cur c ?nr) k2 = Some r2"
      using updatedResults_new_wins[OF dist] by blast
  qed
next
  show "d1 \<noteq> d2 \<and> d1 \<in> snd ` set dates \<and> d2 \<in> snd ` set dates
            \<and> (\<forall>d \<in> snd ` set dates. CHR ''#'' \<notin> set d)
            \<and> always_lists e c d1 i \<and> always_lists e c d2 i \<longrightarrow>
            (\<exists>r1 r2. map_of store' k1 = Some r1 \<and> requestedDate r1 = d1 \<and> rec_id r1 = i
                   \<and> map_of store' k2 = Some r2 \<and> requestedDate r2 = d2 \<and> rec_id r2 = i)"
  proof (intro impI)
    assume h: "d1 \<noteq> d2 \<and> d1 \<in> snd ` set dates \<and> d2 \<in> snd ` set dates
            \<and> (\<forall>d \<in> snd ` set dates. CHR ''#'' \<notin> set d)
            \<and> always_lists e c d1 i \<and> always_lists e c d2 i"
    obtain newResults w1 where loop: "scrapeCampsite_loop e c dates [] w = (newResults, w1)"
      by (cases "scrapeCampsite_loop e c dates [] w")
    have dist: "distinct (map fst newResults)"
      using scrapeCampsite_loop_distinct[of "[]" e c dates w] loop by simp
    have store: "store' = updatedResults (entries (loadFile (results_file w) EmptyObject)) c newResults"
      unfolding store'_def scrapeCampsite_after_loop(1)[OF loop[unfolded dates_def]]
      by (simp add: entries_Holds_distinct distinct_updatedResults)
    have survives: "\<exists>r. map_of store' (composite_key (code c) d i) = Some r
                       \<and> requestedDate r = d \<and> rec_id r = i"
      if d: "d \<in> snd ` set dates" and lists: "always_lists e c d i" for d
    proof -
      from d obtain l where "(l, d) \<in> set dates" by auto
      from scrapeCampsite_loop_key_present[OF this lists, of "[]" w] loop
      have "composite_key (code c) d i \<in> fst ` set newResults" by simp
      then obtain r where r: "map_of newResults (composite_key (code c) d i) = Some r"
        by (metis domD dom_map_of_conv_image_fst)
      then have "(composite_key (code c) d i, r) \<in> set newResults" by (rule map_of_SomeD)
      with scrapeCampsite_loop_records[of "composite_key (code c) d i" r e c dates "[]" w] loop
      obtain l' d' it s ts where o: "(l', d') \<in> set dates"
        "composite_key (code c) d i = composite_key (code c) d' (item_id it)"
        "r = transform it s c d' ts"
        by auto
      from o(1) have "d' \<in> snd ` set dates" by force
      with h d have "CHR ''#'' \<notin> set d" "CHR ''#'' \<notin> set d'" by blast+
      from composite_key_inj[OF this o(2)] have "d' = d" "item_id it = i" by simp_all
      with o(3) have "requestedDate r = d" "rec_id r = i" by (simp_all add: transform_def)
      moreover from updatedResults_new_wins[OF dist r]
      have "map_of store' (composite_key (code c) d i) = Some r" by (simp add: store)
      ultimately show ?thesis by blast
    qed
    from survives[of d1] survives[of d2] h
    show "\<exists>r1 r2. map_of store' k1 = Some r1 \<and> requestedDate r1 = d1 \<and> rec_id r1 = i
                   \<and> map_of store' k2 = Some r2 \<and> requestedDate r2 = d2 \<and> rec_id r2 = i"
      unfolding k1_def k2_def by blast
  qed
qed

lemma always_lists_online: "always_lists online c date ''42''"
  unfolding always_lists_def
proof
  fix n
  have "search_api online n (createRequestBody date c) = Payload (Array [Some listing42]) Falsy
        \<and> spread_or_empty (Array [Some listing42]) = Some [Some listing42]
        \<and> spread_or_empty Falsy = Some []
        \<and> None \<notin> set ([Some listing42] @ []) \<and> Some listing42 \<in> set ([Some listing42] @ [])
        \<and> item_id listing42 = ''42''"
    by (simp add: online_def)
  then show "\<exists>a b xs ys it.
        search_api online n (createRequestBody date c) = Payload a b
        \<and> spread_or_empty a = Some xs \<and> spread_or_empty b = Some ys
        \<and> None \<notin> set (xs @ ys) \<and> Some it \<in> set (xs @ ys) \<and> item_id it = ''42''"
    by blast
qed

theorem composite_key_separates_dates_witness:
  "\<exists>r1 r2.
     map_of (entries (loadFile (results_file (snd (scrapeCampsite online campsiteABC two_weeks)))
                        EmptyObject))
       (composite_key ''ABC'' ''2025-06-01'' ''42'') = Some r1
     \<and> requestedDate r1 = ''2025-06-01'' \<and> rec_id r1 = ''42''
     \<and> map_of (entries (loadFile (results_file (snd (scrapeCampsite online campsiteABC two_weeks)))
                        EmptyObject))
       (composite_key ''ABC'' ''2025-06-08'' ''42'') = Some r2
     \<and> requestedDate r2 = ''2025-06-08'' \<and> rec_id r2 = ''42''"
proof -
  have dates: "entries (loadFile (dates_file two_weeks) EmptyObject)
                 = [(''week1'', ''2025-06-01''), (''week2'', ''2025-06-08'')]"
    by (simp add: two_weeks_def fresh_install_def loadFile_def fromEntries_def)
  have h: "''2025-06-01'' \<noteq> ''2025-06-08''
        \<and> ''2025-06-01'' \<in> snd ` set (entries (loadFile (dates_file two_weeks) EmptyObject))
        \<and> ''2025-06-08'' \<in> snd ` set (entries (loadFile (dates_file two_weeks) EmptyObject))
        \<and> (\<forall>d \<in> snd ` set (entries (loadFile (dates_file two_weeks) EmptyObject)).
              CHR ''#'' \<notin> set d)
        \<and> always_lists online campsiteABC ''2025-06-01'' ''42''
        \<and> always_lists online campsiteABC ''2025-06-08'' ''42''"
    unfolding dates by (simp add: always_lists_online)
  from composite_key_separates_dates[where e = online and c = campsiteABC and w = two_weeks
      and ?d1.0 = "''2025-06-01''" and ?d2.0 = "''2025-06-08''" and i = "''42''"] h
  show ?thesis by simp
qed

section \<open>Selection and read accessors\<close>

text \<open>
  C9, as the specification states it, fails for an empty file: \<^verbatim>\<open>loadFile\<close> parses
  \<^verbatim>\<open>"{}"\<close> in place of an empty text, so both accessors answer with the empty object and not
  with the \<^verbatim>\<open>{error: ...}\<close> object.
\<close>

theorem read_accessors_blank_file:
  "data_route (fresh_install\<lparr>results_file := Blank\<rparr>) = Json EmptyObject
   \<and> data_route (fresh_install\<lparr>results_file := Blank\<rparr>)
        \<noteq> Json (ErrorObject ''No data found. Please run a scrape first.'')
   \<and> getCampsites_route (fresh_install\<lparr>campsites_file := Blank\<rparr>) = Json EmptyObject
   \<and> getCampsites_route (fresh_install\<lparr>campsites_file := Blank\<rparr>)
        \<noteq> Json (ErrorObject ''No campsites found. Please check setup configuration.'')"
  by (simp add: data_route_def getCampsites_route_def maintenanceMode_def loadFile_def fresh_install_def)

text \<open>
  C9, amended. The read accessors never fail: they answer with the parsed file when it
  holds a document, with the \<^verbatim>\<open>{error: ...}\<close> object when the file is missing or cannot be
  read or parsed, and with the empty object \<^verbatim>\<open>{}\<close> when the file is empty.
\<close>

theorem read_accessors_never_fail:
  "data_route w =
     Json (case results_file w of
             Holds store \<Rightarrow> Parsed store
           | Blank \<Rightarrow> EmptyObject
           | Absent \<Rightarrow> ErrorObject ''No data found. Please run a scrape first.''
           | Unreadable \<Rightarrow> ErrorObject ''No data found. Please run a scrape first.'')
   \<and> getCampsites_route w =
     Json (case campsites_file w of
             Holds registry \<Rightarrow> Parsed registry
           | Blank \<Rightarrow> EmptyObject
           | Absent \<Rightarrow> ErrorObject ''No campsites found. Please check setup configuration.''
           | Unreadable \<Rightarrow> ErrorObject ''No campsites found. Please check setup configuration.'')"
  by (simp add: data_route_def getCampsites_route_def maintenanceMode_def loadFile_def
      split: json_file.splits)

text \<open>
  C4. The selection step of \<^verbatim>\<open>/scrape\<close> returns the first campsite of the registry whose
  \<^verbatim>\<open>lastUpdate\<close> is absent or strictly older than 48 hours (172800000 ms) before \<open>now\<close>, and
  none exactly when no campsite is stale; a campsite updated 10 hours (36000000 ms) ago is
  never selected. The selection has no effect: when it finds nothing the route leaves the
  world as it is, and otherwise the scrape of the selected campsite starts from the
  unchanged world.
\<close>

theorem campsiteToFetch_first_stale:
  fixes now :: int and cs :: "campsite list"
  defines "stale \<equiv> \<lambda>c. lastUpdate c = NoUpdate
                       \<or> (\<exists>t. lastUpdate c = UpdatedAt t \<and> t < now - 172800000)"
  shows "(campsiteToFetch now cs = None \<longleftrightarrow> (\<forall>c \<in> set cs. \<not> stale c))
       \<and> (\<forall>c. campsiteToFetch now cs = Some c \<longleftrightarrow>
               (\<exists>i < length cs. cs ! i = c \<and> stale c \<and> (\<forall>j < i. \<not> stale (cs ! j))))
       \<and> (\<forall>c. lastUpdate c = UpdatedAt (now - 36000000) \<longrightarrow> campsiteToFetch now cs \<noteq> Some c)
       \<and> (campsites_file w = Holds cs \<longrightarrow>
            scrape_route e w =
              (case campsiteToFetch (time_value (clock e (length (trace w)))) cs of
                 None \<Rightarrow> (Returned, w)
               | Some c \<Rightarrow> scrapeCampsite e c w))"
proof -
  have eq: "needsUpdate (now - REFRESH_INTERVAL) = stale"
    by (rule ext) (auto simp: needsUpdate_def stale_def REFRESH_INTERVAL_def split: last_update.splits)
  have a: "campsiteToFetch now cs = None \<longleftrightarrow> (\<forall>c \<in> set cs. \<not> stale c)"
    by (auto simp: campsiteToFetch_def eq find_None_iff)
  have b: "\<forall>c. campsiteToFetch now cs = Some c \<longleftrightarrow>
               (\<exists>i < length cs. cs ! i = c \<and> stale c \<and> (\<forall>j < i. \<not> stale (cs ! j)))"
    unfolding campsiteToFetch_def eq find_Some_iff by blast
  have c: "\<forall>c. lastUpdate c = UpdatedAt (now - 36000000) \<longrightarrow> campsiteToFetch now cs \<noteq> Some c"
  proof (intro allI impI notI)
    fix c assume lu: "lastUpdate c = UpdatedAt (now - 36000000)"
      and sel: "campsiteToFetch now cs = Some c"
    from sel b have "stale c" by blast
    with lu show False by (simp add: stale_def)
  qed
  have d: "campsites_file w = Holds cs \<longrightarrow>
            scrape_route e w =
              (case campsiteToFetch (time_value (clock e (length (trace w)))) cs of
                 None \<Rightarrow> (Returned, w)
               | Some c \<Rightarrow> scrapeCampsite e c w)"
    by (simp add: scrape_route_def loadFile_def)
  from a b c d show ?thesis by blast
qed

theorem campsiteToFetch_first_stale_witness:
  "campsiteToFetch 1748781296789
     [campsiteABC\<lparr>code := ''TEN'', lastUpdate := UpdatedAt 1748745296789\<rparr>,
      campsiteABC\<lparr>code := ''OLD'', lastUpdate := UpdatedAt 1748522096789\<rparr>,
      campsiteABC]
   = Some (campsiteABC\<lparr>code := ''OLD'', lastUpdate := UpdatedAt 1748522096789\<rparr>)"
  using campsiteToFetch_first_stale[of 1748781296789
     "[campsiteABC\<lparr>code := ''TEN'', lastUpdate := UpdatedAt 1748745296789\<rparr>,
      campsiteABC\<lparr>code := ''OLD'', lastUpdate := UpdatedAt 1748522096789\<rparr>,
      campsiteABC]"]
  by (simp add: campsiteABC_def campsiteToFetch_def needsUpdate_def REFRESH_INTERVAL_def)

end
